theory Spec2Isabelle
  imports Complex_Main "HOL-Library.Multiset" "HOL-Library.Product_Lexorder"
begin

section \<open>Data model\<close>

text \<open>
  JavaScript numbers are modelled as rationals: pixel coordinates, sizes and centres are
  values of type \<open>rat\<close>, grid columns and rows are integers. \<open>Math.floor\<close>,
  \<open>Math.ceil\<close> and \<open>Math.round\<close> (round half up) are \<open>floor\<close>,
  \<open>ceiling\<close> and \<open>round\<close>. A coordinate that is \<open>null\<close> is \<open>None\<close>.
  Message ids are the non-empty strings made by \<open>addMessage\<close>; a \<open>parentId\<close> is
  either such an id or \<open>null\<close>, so the truthiness test \<open>m.parentId\<close> of the
  source is \<open>parentId m \<noteq> None\<close>.
\<close>

type_synonym msg_id = string

record message =
  msg_id :: msg_id
  parentId :: "msg_id option"
  threadId :: "msg_id option"
  isThread :: bool
  senderId :: string
  msg_text :: string
  timestamp :: string
  msg_x :: "rat option"
  msg_y :: "rat option"

text \<open>The test \<open>m.x != null && m.y != null\<close> of the source.\<close>

definition placed :: "message \<Rightarrow> bool" where
  "placed m = (msg_x m \<noteq> None \<and> msg_y m \<noteq> None)"

text \<open>The operator \<open>v ?? d\<close>.\<close>

definition orElse :: "'a option \<Rightarrow> 'a \<Rightarrow> 'a" where
  "orElse v d = (case v of None \<Rightarrow> d | Some a \<Rightarrow> a)"

subsection \<open>constants.js\<close>

definition GRID :: rat where "GRID = 20"
definition GAP :: rat where "GAP = 64"
definition SIDE_GAP :: rat where "SIDE_GAP = 128"
definition PADDING :: rat where "PADDING = 28"
definition EDGE_PADDING :: rat where "EDGE_PADDING = 80"
definition MAX_SCAN :: nat where "MAX_SCAN = 500"
definition MAX_RESOLVE_PASSES :: nat where "MAX_RESOLVE_PASSES = 8"

definition gapCells :: int where "gapCells = max 1 (round (GAP / GRID))"
definition padCells :: int where "padCells = max 1 (round (PADDING / GRID))"
definition leftEdgeCol :: int where "leftEdgeCol = \<lceil>EDGE_PADDING / GRID\<rceil>"
definition sideGapCells :: int where "sideGapCells = max 1 (round (SIDE_GAP / GRID))"

subsection \<open>utils/grid.js\<close>

definition snap :: "rat \<Rightarrow> rat" where
  "snap n = of_int (round (n / GRID)) * GRID"

definition toCol :: "rat \<Rightarrow> int" where "toCol v = \<lfloor>v / GRID\<rfloor>"
definition toRow :: "rat \<Rightarrow> int" where "toRow v = \<lfloor>v / GRID\<rfloor>"
definition fromCol :: "int \<Rightarrow> rat" where "fromCol c = of_int c * GRID"
definition fromRow :: "int \<Rightarrow> rat" where "fromRow r = of_int r * GRID"

subsection \<open>utils/thread.js\<close>

text \<open>
  \<open>new Map(messages.map(x => [x.id, x]))\<close>: a later entry with the same id replaces an
  earlier one.
\<close>

definition idToMsg :: "message list \<Rightarrow> msg_id \<rightharpoonup> message" where
  "idToMsg ms = map_of (rev (map (\<lambda>m. (msg_id m, m)) ms))"

text \<open>
  The loop \<open>while (cur?.parentId) cur = idToMsg.get(cur.parentId)\<close>. It has no bound, so
  it is a partial function: \<open>None\<close> is the loop that never ends, \<open>Some cur\<close> the value
  of \<open>cur\<close> when it ends (itself \<open>None\<close> for \<open>undefined\<close>).
\<close>

partial_function (option) followParents ::
  "(msg_id \<rightharpoonup> message) \<Rightarrow> message option \<Rightarrow> message option option" where
  "followParents tbl cur =
     (case cur of
        None \<Rightarrow> Some None
      | Some m \<Rightarrow>
          (case parentId m of
             None \<Rightarrow> Some (Some m)
           | Some p \<Rightarrow> followParents tbl (tbl p)))"

declare followParents.simps [code]

definition getRootIdOf :: "message list \<Rightarrow> msg_id \<Rightarrow> msg_id option" where
  "getRootIdOf ms i =
     (case followParents (idToMsg ms) (idToMsg ms i) of
        None \<Rightarrow> None
      | Some cur \<Rightarrow> Some (case cur of None \<Rightarrow> i | Some m \<Rightarrow> msg_id m))"

text \<open>
  The chain of parentId lookups from a table entry, as a relation: \<open>chainEnds tbl cur r\<close>
  holds when following the pointers from \<open>cur\<close> stops after finitely many steps, at the
  message \<open>r = Some m\<close> whose parentId is null, or at a missing entry (\<open>r = None\<close>).
\<close>

inductive chainEnds :: "(msg_id \<rightharpoonup> message) \<Rightarrow> message option \<Rightarrow> message option \<Rightarrow> bool"
  for tbl :: "msg_id \<rightharpoonup> message" where
  missing: "chainEnds tbl None None"
| root: "parentId m = None \<Longrightarrow> chainEnds tbl (Some m) (Some m)"
| step: "parentId m = Some p \<Longrightarrow> chainEnds tbl (tbl p) r \<Longrightarrow> chainEnds tbl (Some m) r"

text \<open>A message list is acyclic when the chain from every id ends.\<close>

definition acyclic_parents :: "message list \<Rightarrow> bool" where
  "acyclic_parents ms = (\<forall>i. \<exists>r. chainEnds (idToMsg ms) (idToMsg ms i) r)"

subsection \<open>The view: measured sizes, mounted elements, stage\<close>

record bubble_size =
  size_w :: rat
  size_h :: rat

text \<open>
  What \<open>getRectFor\<close> reads from a mounted bubble element: its offset size and the
  position of its bounding box relative to the canvas
  (\<open>mrect.left - crect.left\<close>, \<open>mrect.top - crect.top\<close>).
\<close>

record bubble_el =
  offsetWidth :: rat
  offsetHeight :: rat
  el_left :: rat
  el_top :: rat

record stage_size =
  stage_width :: rat
  stage_height :: rat

text \<open>
  The surroundings of a pass, constant while it runs: \<open>bubbleSizesRef.current\<close>,
  \<open>messageRefs.current\<close>, whether \<open>canvasRef.current\<close> is set,
  \<open>stageSizeRef.current\<close> and the viewport. (\<open>setStageSize\<close> only queues an
  update of the React state; the ref is assigned by an effect after the render.)
\<close>

record env =
  bubbleSizes :: "msg_id \<rightharpoonup> bubble_size"
  messageRefs :: "msg_id \<rightharpoonup> bubble_el"
  canvasRef :: bool
  stageSizeRef :: stage_size
  viewport :: stage_size

record pxRect =
  px_x :: rat
  px_y :: rat
  px_w :: rat
  px_h :: rat

definition clampYNoBottom :: "rat \<Rightarrow> rat" where
  "clampYNoBottom v = snap (max EDGE_PADDING v)"

text \<open>The queued updates of the stage size, applied to the pending state.\<close>

definition ensureHeightForRect :: "env \<Rightarrow> rat \<Rightarrow> rat \<Rightarrow> stage_size \<Rightarrow> stage_size" where
  "ensureHeightForRect e v h prev =
     (let needed = of_int \<lceil>v + h + EDGE_PADDING\<rceil>
      in if needed > stage_height prev
         then prev\<lparr>stage_height := max needed (stage_height (viewport e))\<rparr>
         else prev)"

definition ensureWidthForRect :: "env \<Rightarrow> rat \<Rightarrow> rat \<Rightarrow> stage_size \<Rightarrow> stage_size" where
  "ensureWidthForRect e u w prev =
     (let needed = of_int \<lceil>u + w + EDGE_PADDING\<rceil>
      in if needed > stage_width prev
         then prev\<lparr>stage_width := max needed (stage_width (viewport e))\<rparr>
         else prev)"

definition getRectFor :: "env \<Rightarrow> message \<Rightarrow> pxRect" where
  "getRectFor e m =
     (let el = messageRefs e (msg_id m);
          size = bubbleSizes e (msg_id m);
          w = orElse (map_option size_w size) (orElse (map_option offsetWidth el) 300);
          h = orElse (map_option size_h size) (orElse (map_option offsetHeight el) 100)
      in case el of
           Some b \<Rightarrow>
             if canvasRef e
             then \<lparr>px_x = orElse (msg_x m) (el_left b), px_y = orElse (msg_y m) (el_top b),
                   px_w = w, px_h = h\<rparr>
             else \<lparr>px_x = orElse (msg_x m) 0, px_y = orElse (msg_y m) 0, px_w = w, px_h = h\<rparr>
         | None \<Rightarrow>
             \<lparr>px_x = orElse (msg_x m) 0, px_y = orElse (msg_y m) 0, px_w = w, px_h = h\<rparr>)"

definition getRectById :: "env \<Rightarrow> message list \<Rightarrow> msg_id \<Rightarrow> pxRect option" where
  "getRectById e cur i = map_option (getRectFor e) (find (\<lambda>m. msg_id m = i) cur)"

subsection \<open>layout/placement.js\<close>

record gridRect =
  g_col :: int
  g_row :: int
  g_spanX :: int
  g_spanY :: int

record occRect = gridRect +
  occ_id :: msg_id

datatype side = Left | Right | Below

record slot =
  slot_x :: rat
  slot_y :: rat
  slot_side :: side

text \<open>
  The loop \<open>for (; i < n; i++) { ... if (ok) return res; }\<close>: \<open>forFirst i n body\<close> runs
  the attempt \<open>body\<close> at \<open>i\<close>, \<open>i + 1\<close>, ... below \<open>n\<close> and returns the result of the
  first attempt that succeeds, \<open>None\<close> when the loop runs to its bound.
\<close>

function forFirst :: "nat \<Rightarrow> nat \<Rightarrow> (nat \<Rightarrow> 'b option) \<Rightarrow> 'b option" where
  "forFirst i n body =
     (if i < n
      then (case body i of Some b \<Rightarrow> Some b | None \<Rightarrow> forFirst (Suc i) n body)
      else None)"
  by pat_completeness auto
termination
  by (relation "measure (\<lambda>(i, n, body). n - i)") auto

declare forFirst.simps [simp del]

definition rectsOverlap :: "('a gridRect_scheme) \<Rightarrow> ('b gridRect_scheme) \<Rightarrow> bool" where
  "rectsOverlap a b =
     (\<not> (g_col a + g_spanX a \<le> g_col b \<or>
         g_col b + g_spanX b \<le> g_col a \<or>
         g_row a + g_spanY a \<le> g_row b \<or>
         g_row b + g_spanY b \<le> g_row a))"

definition getMsgGridRect :: "env \<Rightarrow> message \<Rightarrow> occRect" where
  "getMsgGridRect e m =
     (let r = getRectFor e m
      in \<lparr>g_col = max leftEdgeCol (toCol (px_x r) - padCells),
          g_row = max leftEdgeCol (toRow (px_y r)),
          g_spanX = max 1 \<lceil>(px_w r + PADDING) / GRID\<rceil> + padCells * 2,
          g_spanY = max 1 \<lceil>(px_h r + PADDING) / GRID\<rceil> + padCells * 2,
          occ_id = msg_id m\<rparr>)"

definition buildOccupancy :: "env \<Rightarrow> message list \<Rightarrow> msg_id list \<Rightarrow> occRect list" where
  "buildOccupancy e cur excludeIds =
     map (getMsgGridRect e)
       (filter (\<lambda>m. msg_x m \<noteq> None \<and> msg_y m \<noteq> None \<and> msg_id m \<notin> set excludeIds) cur)"

definition isFreeRect :: "occRect list \<Rightarrow> int \<Rightarrow> int \<Rightarrow> int \<Rightarrow> int \<Rightarrow> bool" where
  "isFreeRect occRects c r spanX spanY =
     (if c < leftEdgeCol then False
      else let probe = \<lparr>g_col = c - padCells, g_row = r,
                         g_spanX = spanX + padCells * 2, g_spanY = spanY + padCells * 2\<rparr>
           in \<not> list_ex (\<lambda>q. rectsOverlap q probe) occRects)"

definition slotAt :: "int \<Rightarrow> int \<Rightarrow> side \<Rightarrow> slot" where
  "slotAt c r s = \<lparr>slot_x = snap (fromCol c), slot_y = snap (fromRow r), slot_side = s\<rparr>"

definition spanOf :: "rat \<Rightarrow> int" where
  "spanOf v = max 1 \<lceil>(v + PADDING) / GRID\<rceil>"

definition tryOrder ::
  "occRect list \<Rightarrow> int \<Rightarrow> int \<Rightarrow> int \<Rightarrow> int \<Rightarrow> int \<Rightarrow> side option \<Rightarrow> int \<Rightarrow> slot option" where
  "tryOrder occRects startRightCol startLeftCol r spanX spanY preferSide d =
     (let rightC = startRightCol + d;
          leftC = startLeftCol - d
      in if preferSide = Some Left then
           (if leftC \<ge> leftEdgeCol \<and> isFreeRect occRects leftC r spanX spanY
            then Some (slotAt leftC r Left)
            else if isFreeRect occRects rightC r spanX spanY
            then Some (slotAt rightC r Right)
            else None)
         else if preferSide = Some Right then
           (if isFreeRect occRects rightC r spanX spanY
            then Some (slotAt rightC r Right)
            else if leftC \<ge> leftEdgeCol \<and> isFreeRect occRects leftC r spanX spanY
            then Some (slotAt leftC r Left)
            else None)
         else
           (if isFreeRect occRects rightC r spanX spanY
            then Some (slotAt rightC r Right)
            else if leftC \<ge> leftEdgeCol \<and> isFreeRect occRects leftC r spanX spanY
            then Some (slotAt leftC r Left)
            else None))"

definition findSideSlotOnRow ::
  "occRect list \<Rightarrow> pxRect \<Rightarrow> rat \<Rightarrow> rat \<Rightarrow> side option \<Rightarrow> slot option" where
  "findSideSlotOnRow occRects parentRect w h preferSide =
     (let spanX = spanOf w;
          spanY = spanOf h;
          r = toRow (px_y parentRect);
          parentLeftCol = toCol (px_x parentRect);
          parentRightCol = toCol (px_x parentRect + px_w parentRect);
          startRightCol = parentRightCol + sideGapCells;
          startLeftCol = parentLeftCol - sideGapCells - spanX;
          MAX_WIDE = max MAX_SCAN 200
      in forFirst 0 (MAX_WIDE + 1)
           (\<lambda>d. tryOrder occRects startRightCol startLeftCol r spanX spanY preferSide (int d)))"

definition maxSpread :: nat where "maxSpread = 500"

text \<open>One iteration of the loop of \<open>findSlotBelow\<close>, at distance \<open>d\<close>.\<close>

definition belowAttempt :: "occRect list \<Rightarrow> int \<Rightarrow> int \<Rightarrow> int \<Rightarrow> int \<Rightarrow> int \<Rightarrow> slot option" where
  "belowAttempt occRects parentCenterCol r spanX spanY d =
     (let leftCol = parentCenterCol - spanX div 2 - d;
          rightCol = parentCenterCol - spanX div 2 + d
      in if rightCol \<ge> leftEdgeCol \<and> isFreeRect occRects rightCol r spanX spanY
         then Some (slotAt rightCol r Below)
         else if leftCol \<ge> leftEdgeCol \<and> isFreeRect occRects leftCol r spanX spanY
         then Some (slotAt leftCol r Below)
         else None)"

definition findSlotBelow :: "occRect list \<Rightarrow> pxRect \<Rightarrow> rat \<Rightarrow> rat \<Rightarrow> slot" where
  "findSlotBelow occRects parentRect w h =
     (let spanX = spanOf w;
          spanY = spanOf h;
          r = toRow (px_y parentRect + px_h parentRect) + gapCells;
          parentCenterCol = toCol (px_x parentRect + px_w parentRect / 2)
      in case forFirst 0 maxSpread
                (\<lambda>d. belowAttempt occRects parentCenterCol r spanX spanY (int d)) of
           Some res \<Rightarrow> res
         | None \<Rightarrow>
             \<lparr>slot_x = snap (px_x parentRect),
              slot_y = snap (px_y parentRect + GAP + px_h parentRect),
              slot_side = Below\<rparr>)"

definition MAX_DROP :: nat where "MAX_DROP = 1000"

text \<open>
  One iteration of the row loop of \<open>findSlotBelowAtCenter\<close> and \<open>findSlotBelowAtX\<close>:
  the column is fixed, the row is the start row plus the iteration count.
\<close>

definition dropAttempt :: "occRect list \<Rightarrow> int \<Rightarrow> int \<Rightarrow> int \<Rightarrow> int \<Rightarrow> slot option" where
  "dropAttempt occRects startCol spanX spanY r =
     (if isFreeRect occRects startCol r spanX spanY then Some (slotAt startCol r Below) else None)"

definition findSlotBelowAtCenter :: "occRect list \<Rightarrow> rat \<Rightarrow> pxRect \<Rightarrow> rat \<Rightarrow> rat \<Rightarrow> slot" where
  "findSlotBelowAtCenter occRects targetCenterX parentRect w h =
     (let spanX = spanOf w;
          spanY = spanOf h;
          r = toRow (px_y parentRect + px_h parentRect) + gapCells;
          startCol = max leftEdgeCol (toCol (targetCenterX - w / 2))
      in case forFirst 0 MAX_DROP
                (\<lambda>i. dropAttempt occRects startCol spanX spanY (r + int i)) of
           Some res \<Rightarrow> res
         | None \<Rightarrow> findSlotBelow occRects parentRect w h)"

definition findSlotBelowAtX :: "occRect list \<Rightarrow> rat \<Rightarrow> pxRect \<Rightarrow> rat \<Rightarrow> rat \<Rightarrow> slot" where
  "findSlotBelowAtX occRects targetLeftX parentRect w h =
     (let spanX = spanOf w;
          spanY = spanOf h;
          r = toRow (px_y parentRect + px_h parentRect) + gapCells;
          startCol = max leftEdgeCol (toCol targetLeftX)
      in case forFirst 0 MAX_DROP
                (\<lambda>i. dropAttempt occRects startCol spanX spanY (r + int i)) of
           Some res \<Rightarrow> res
         | None \<Rightarrow> findSlotBelow occRects parentRect w h)"

definition choosePlacement ::
  "env \<Rightarrow> message list \<Rightarrow> pxRect \<Rightarrow> rat \<Rightarrow> rat \<Rightarrow> msg_id list \<Rightarrow> side option \<Rightarrow> slot" where
  "choosePlacement e cur parentRect w h excludeIds preferSide =
     (let occ = buildOccupancy e cur excludeIds
      in case findSideSlotOnRow occ parentRect w h preferSide of
           Some s \<Rightarrow> s
         | None \<Rightarrow> findSlotBelow occ parentRect w h)"

subsection \<open>layout/resolveOverlaps.js\<close>

definition overlapAmount :: "env \<Rightarrow> message \<Rightarrow> message \<Rightarrow> rat \<times> rat" where
  "overlapAmount e a b =
     (let ar = getRectFor e a;
          br = getRectFor e b;
          ax2 = px_x ar + px_w ar; ay2 = px_y ar + px_h ar;
          bx2 = px_x br + px_w br; by2 = px_y br + px_h br
      in (max 0 (min ax2 bx2 - max (px_x ar) (px_x br)),
          max 0 (min ay2 by2 - max (px_y ar) (px_y br))))"

text \<open>
  The body of the test \<open>ox > 0 && oy > 0\<close>: the new \<open>B\<close> and the stage update it queues.
\<close>

definition adjustOverlap ::
  "env \<Rightarrow> message \<Rightarrow> message \<Rightarrow> rat \<Rightarrow> rat \<Rightarrow> stage_size \<Rightarrow> message \<times> stage_size" where
  "adjustOverlap e A B ox oy stg =
     (let Ar = getRectFor e A;
          Br = getRectFor e B;
          rowTol = max GRID (of_int \<lfloor>px_h Ar / 2\<rfloor>);
          isSiblings = (parentId A \<noteq> None \<and> parentId A = parentId B \<and>
                        \<bar>px_y Ar - px_y Br\<bar> \<le> rowTol);
          isMainA = (\<not> isThread A);
          isMainB = (\<not> isThread B);
          pushDown = (if isSiblings then False else oy \<ge> ox \<or> isMainA \<or> isMainB)
      in if pushDown then
           (let v = clampYNoBottom (orElse (msg_y B) 0 + oy + PADDING);
                nb = B\<lparr>msg_y := Some v\<rparr>
            in (nb, ensureHeightForRect e v (px_h (getRectFor e nb)) stg))
         else
           (let sizeB = getRectFor e B;
                tryRight = snap (orElse (msg_x B) 0 + ox + PADDING);
                tryLeft = snap (orElse (msg_x B) 0 - (ox + PADDING));
                rightFits = (tryRight + px_w sizeB + EDGE_PADDING \<le> stage_width (stageSizeRef e));
                leftFits = (tryLeft \<ge> EDGE_PADDING);
                preferRight = (orElse (msg_x B) 0 \<ge> orElse (msg_x A) 0);
                finalX = (if preferRight \<and> rightFits then tryRight
                          else if leftFits then tryLeft
                          else if rightFits then tryRight else tryLeft);
                nb = B\<lparr>msg_x := Some finalX\<rparr>
            in (nb, ensureWidthForRect e finalX (px_w (getRectFor e nb)) stg)))"

text \<open>
  The body of the inner loop for the index pair \<open>(i, j)\<close>, on the array \<open>updated\<close>, the flag
  \<open>changed\<close> and the pending stage size.
\<close>

definition pairStep ::
  "env \<Rightarrow> nat \<times> nat \<Rightarrow> message list \<times> bool \<times> stage_size \<Rightarrow> message list \<times> bool \<times> stage_size" where
  "pairStep e ij st =
     (case ij of (i, j) \<Rightarrow>
      case st of (updated, changed, stg) \<Rightarrow>
        (let A = updated ! i; B = updated ! j
         in if msg_x A = None \<or> msg_y A = None \<or> msg_x B = None \<or> msg_y B = None
            then (updated, changed, stg)
            else case overlapAmount e A B of (ox, oy) \<Rightarrow>
              if ox > 0 \<and> oy > 0
              then (case adjustOverlap e A B ox oy stg of
                      (nb, stg') \<Rightarrow> (updated[j := nb], True, stg'))
              else (updated, changed, stg)))"

text \<open>The pairs \<open>(i, j)\<close> with \<open>i < j < n\<close> in the order the two nested loops visit them.\<close>

definition indexPairs :: "nat \<Rightarrow> (nat \<times> nat) list" where
  "indexPairs n = concat (map (\<lambda>i. map (\<lambda>j. (i, j)) [Suc i..<n]) [0..<n])"

text \<open>
  The comparator \<open>(a.y ?? 0) - (b.y ?? 0) || (a.x ?? 0) - (b.x ?? 0)\<close> orders by the pair
  \<open>(y, x)\<close> lexicographically; \<open>Array.prototype.sort\<close> is stable.
\<close>

definition sortKey :: "message \<Rightarrow> rat \<times> rat" where
  "sortKey m = (orElse (msg_y m) 0, orElse (msg_x m) 0)"

definition sortMessages :: "message list \<Rightarrow> message list" where
  "sortMessages ms = sort_key sortKey ms"

definition resolvePass ::
  "env \<Rightarrow> message list \<Rightarrow> stage_size \<Rightarrow> message list \<times> bool \<times> stage_size" where
  "resolvePass e updated stg =
     (let sorted = sortMessages updated
      in fold (pairStep e) (indexPairs (length sorted)) (sorted, False, stg))"

fun resolveLoop :: "nat \<Rightarrow> env \<Rightarrow> message list \<Rightarrow> stage_size \<Rightarrow> message list \<times> stage_size" where
  "resolveLoop 0 e updated stg = (updated, stg)"
| "resolveLoop (Suc k) e updated stg =
     (case resolvePass e updated stg of
        (updated', changed, stg') \<Rightarrow>
          if changed then resolveLoop k e updated' stg' else (updated', stg'))"

definition normalizeMsg :: "env \<Rightarrow> message \<Rightarrow> message" where
  "normalizeMsg e m =
     (case msg_x m of None \<Rightarrow> m
      | Some u \<Rightarrow>
        (case msg_y m of None \<Rightarrow> m
         | Some v \<Rightarrow> m\<lparr>msg_x := Some (snap (max u EDGE_PADDING)), msg_y := Some (clampYNoBottom v)\<rparr>))"

definition normalizeStage :: "env \<Rightarrow> message \<Rightarrow> stage_size \<Rightarrow> stage_size" where
  "normalizeStage e m stg =
     (case msg_x m of None \<Rightarrow> stg
      | Some u \<Rightarrow>
        (case msg_y m of None \<Rightarrow> stg
         | Some v \<Rightarrow>
             ensureHeightForRect e (clampYNoBottom v) (px_h (getRectFor e m))
               (ensureWidthForRect e (snap (max u EDGE_PADDING)) (px_w (getRectFor e m)) stg)))"

definition resolveOverlaps :: "env \<Rightarrow> message list \<Rightarrow> stage_size \<Rightarrow> message list \<times> stage_size" where
  "resolveOverlaps e messages stg =
     (case resolveLoop MAX_RESOLVE_PASSES e messages stg of
        (updated, stg') \<Rightarrow> (map (normalizeMsg e) updated, fold (normalizeStage e) updated stg'))"

subsection \<open>ChatCanvas.jsx: the placement pass\<close>

text \<open>
  The state of a pass: the working copy \<open>next\<close>, the two tables kept in refs
  (\<open>rootCentersRef\<close>, \<open>mainTailByRootRef\<close>), the local copy of the main tails, the flag
  \<open>changed\<close> and the pending stage size. The committed list \<open>messagesRef.current\<close>
  (called \<open>cur\<close>) does not change while the pass runs.
\<close>

record pass_state =
  nextMsgs :: "message list"
  rootCenters :: "msg_id \<rightharpoonup> rat"
  mainTailByRoot :: "msg_id \<rightharpoonup> msg_id"
  localMainTail :: "msg_id \<rightharpoonup> msg_id"
  changed :: bool
  stageSize :: stage_size

definition defaultSize :: bubble_size where
  "defaultSize = \<lparr>size_w = 300, size_h = 100\<rparr>"

definition getPlacedRectById :: "env \<Rightarrow> message list \<Rightarrow> message list \<Rightarrow> msg_id \<Rightarrow> pxRect option" where
  "getPlacedRectById e cur nxt i =
     (case find (\<lambda>m. msg_id m = i) nxt of
        None \<Rightarrow> getRectById e cur i
      | Some candidate \<Rightarrow>
          (case msg_x candidate of None \<Rightarrow> getRectById e cur i
           | Some u \<Rightarrow>
             (case msg_y candidate of None \<Rightarrow> getRectById e cur i
              | Some v \<Rightarrow>
                  (let size = orElse (bubbleSizes e i) defaultSize
                   in Some \<lparr>px_x = u, px_y = v, px_w = size_w size, px_h = size_h size\<rparr>))))"

definition rectsOverlapPx :: "pxRect \<Rightarrow> pxRect \<Rightarrow> bool" where
  "rectsOverlapPx a b =
     (\<not> (px_x a + px_w a \<le> px_x b \<or>
         px_x b + px_w b \<le> px_x a \<or>
         px_y a + px_h a \<le> px_y b \<or>
         px_y b + px_h b \<le> px_y a))"

definition buildPlacedRectsExcluding :: "env \<Rightarrow> message list \<Rightarrow> msg_id \<Rightarrow> pxRect list" where
  "buildPlacedRectsExcluding e nxt excludeId =
     map (\<lambda>m. let sz = orElse (bubbleSizes e (msg_id m)) defaultSize
              in \<lparr>px_x = orElse (msg_x m) 0, px_y = orElse (msg_y m) 0,
                  px_w = size_w sz, px_h = size_h sz\<rparr>)
       (filter (\<lambda>m. msg_id m \<noteq> excludeId \<and> msg_x m \<noteq> None \<and> msg_y m \<noteq> None) nxt)"

text \<open>
  One run of the inner \<open>for\<close> loop of \<open>stackBelowAtX\<close> over the placed rectangles: the
  candidate's y and the flag \<open>changed\<close>.
\<close>

definition stackSweep :: "pxRect list \<Rightarrow> rat \<Rightarrow> rat \<Rightarrow> rat \<Rightarrow> rat \<Rightarrow> rat \<times> bool" where
  "stackSweep placedRects u w h v =
     fold (\<lambda>r (cy, ch).
             if rectsOverlapPx \<lparr>px_x = u, px_y = cy, px_w = w, px_h = h\<rparr> r
             then (snap (px_y r + px_h r + GAP), True)
             else (cy, ch))
       placedRects (v, False)"

text \<open>The loop \<open>while (changed && guard++ < 200)\<close>; the first argument is what is left of the guard.\<close>

fun stackLoop :: "nat \<Rightarrow> (rat \<Rightarrow> rat \<times> bool) \<Rightarrow> rat \<Rightarrow> rat" where
  "stackLoop 0 sweep v = v"
| "stackLoop (Suc n) sweep v =
     (case sweep v of (v', ch) \<Rightarrow> if ch then stackLoop n sweep v' else v')"

definition stackBelowAtX ::
  "env \<Rightarrow> message list \<Rightarrow> rat \<Rightarrow> pxRect \<Rightarrow> bubble_size \<Rightarrow> msg_id \<Rightarrow> rat \<times> rat" where
  "stackBelowAtX e nxt targetLeftX parentRect sizeWH excludeId =
     (let v = snap (px_y parentRect + px_h parentRect + GAP);
          placedRects = buildPlacedRectsExcluding e nxt excludeId;
          u = snap targetLeftX
      in (u, stackLoop 200 (stackSweep placedRects u (size_w sizeWH) (size_h sizeWH)) v))"

definition slotPos :: "slot \<Rightarrow> rat \<times> rat" where
  "slotPos s = (slot_x s, slot_y s)"

text \<open>The branch \<open>if (isThread)\<close> of a child: the position \<open>pos\<close>.\<close>

definition threadPos ::
  "env \<Rightarrow> message list \<Rightarrow> message list \<Rightarrow> message \<Rightarrow> bubble_size \<Rightarrow> msg_id \<Rightarrow> pxRect \<Rightarrow> rat \<times> rat" where
  "threadPos e cur nxt m sz pid pr =
     (let isUserMsg = (senderId m = ''local-user'');
          parentMsg = find (\<lambda>q. msg_id q = pid) cur;
          parentIsThread = (case parentMsg of None \<Rightarrow> False | Some pm \<Rightarrow> isThread pm)
      in if isUserMsg then
           (if parentIsThread then stackBelowAtX e nxt (px_x pr) pr sz (msg_id m)
            else
              (let parentCenterX = px_x pr + px_w pr / 2;
                   siblings = filter (\<lambda>q. parentId q = parentId m \<and> msg_x q \<noteq> None \<and>
                                          msg_y q \<noteq> None \<and> msg_id q \<noteq> msg_id m) cur;
                   leftCount = length (filter (\<lambda>q. px_x (getRectFor e q) + px_w (getRectFor e q) / 2
                                                    < parentCenterX) siblings);
                   rightCount = length (filter (\<lambda>q. \<not> px_x (getRectFor e q) + px_w (getRectFor e q) / 2
                                                    < parentCenterX) siblings);
                   preferSide = (if leftCount \<le> rightCount then Left else Right);
                   pos = choosePlacement e cur pr (size_w sz) (size_h sz) [msg_id m] (Some preferSide)
               in if slot_side pos = Below then
                    (let occ = buildOccupancy e cur [msg_id m];
                         sideGapPx = of_int sideGapCells * GRID;
                         targetLeftX = (if preferSide = Left
                                        then max EDGE_PADDING (px_x pr - sideGapPx - size_w sz)
                                        else px_x pr + px_w pr + sideGapPx)
                     in slotPos (findSlotBelowAtX occ targetLeftX pr (size_w sz) (size_h sz)))
                  else slotPos pos))
         else stackBelowAtX e nxt (px_x pr) pr sz (msg_id m))"

text \<open>
  The main-chain branch of a child: the pinned centre of the root (set when it is missing),
  and the position \<open>pos\<close>.
\<close>

definition pinnedCenter :: "env \<Rightarrow> message list \<Rightarrow> (msg_id \<rightharpoonup> rat) \<Rightarrow> msg_id \<Rightarrow> rat" where
  "pinnedCenter e cur centers rootId =
     (case centers rootId of
        Some c \<Rightarrow> c
      | None \<Rightarrow>
          (case getRectById e cur rootId of
             Some rootRectNow \<Rightarrow> px_x rootRectNow + px_w rootRectNow / 2
           | None \<Rightarrow> stage_width (stageSizeRef e) / 2))"

definition mainPos ::
  "env \<Rightarrow> message list \<Rightarrow> message \<Rightarrow> bubble_size \<Rightarrow> pxRect \<Rightarrow> rat \<Rightarrow> rat \<times> rat" where
  "mainPos e cur m sz pr rootCenter =
     (let occ = buildOccupancy e cur [msg_id m]
      in slotPos (findSlotBelowAtCenter occ rootCenter pr (size_w sz) (size_h sz)))"

text \<open>The body of \<open>if (m.parentId)\<close> once the parent's rectangle and the root id are known.\<close>

definition placeChild ::
  "env \<Rightarrow> message list \<Rightarrow> nat \<Rightarrow> message \<Rightarrow> bubble_size \<Rightarrow> msg_id \<Rightarrow> pxRect \<Rightarrow> msg_id \<Rightarrow>
   pass_state \<Rightarrow> pass_state" where
  "placeChild e cur i m sz pid pr rootId st =
     (let st1 = (if isThread m then st
                 else st\<lparr>rootCenters :=
                           (case rootCenters st rootId of
                              Some c \<Rightarrow> rootCenters st
                            | None \<Rightarrow> (rootCenters st)
                                        (rootId \<mapsto> pinnedCenter e cur (rootCenters st) rootId)),
                         localMainTail := (localMainTail st)(rootId \<mapsto> msg_id m)\<rparr>);
          pos = (if isThread m then threadPos e cur (nextMsgs st) m sz pid pr
                 else mainPos e cur m sz pr (pinnedCenter e cur (rootCenters st) rootId));
          u = fst pos;
          v = clampYNoBottom (snd pos)
      in st1\<lparr>nextMsgs := (nextMsgs st)[i := m\<lparr>msg_x := Some u, msg_y := Some v\<rparr>],
             stageSize := ensureHeightForRect e v (size_h sz)
                            (ensureWidthForRect e u (size_w sz) (stageSize st)),
             changed := True\<rparr>)"

text \<open>The choice \<open>placedRoots.reduce((a, b) => getRectFor(a).y > getRectFor(b).y ? a : b)\<close>.\<close>

definition lowestRoot :: "env \<Rightarrow> message \<Rightarrow> message list \<Rightarrow> message" where
  "lowestRoot e r rs =
     foldl (\<lambda>a b. if px_y (getRectFor e a) > px_y (getRectFor e b) then a else b) r rs"

text \<open>The branch of a root message.\<close>

definition placeRoot :: "env \<Rightarrow> nat \<Rightarrow> message \<Rightarrow> bubble_size \<Rightarrow> pass_state \<Rightarrow> pass_state" where
  "placeRoot e i m sz st =
     (let placedRoots = filter (\<lambda>t. parentId t = None \<and> msg_x t \<noteq> None \<and> msg_y t \<noteq> None)
                          (nextMsgs st);
          rectW = size_w sz;
          u = snap (of_int (round ((stage_width (stageSizeRef e) - rectW) / 2)));
          v = (case placedRoots of
                 [] \<Rightarrow> snap EDGE_PADDING
               | r # rs \<Rightarrow>
                   (let lr = getRectFor e (lowestRoot e r rs)
                    in clampYNoBottom (px_y lr + px_h lr + GAP)))
      in st\<lparr>nextMsgs := (nextMsgs st)[i := m\<lparr>msg_x := Some u, msg_y := Some v\<rparr>],
            stageSize := ensureHeightForRect e v (size_h sz)
                           (ensureWidthForRect e u (size_w sz) (stageSize st)),
            rootCenters := (rootCenters st)(msg_id m \<mapsto> u + size_w sz / 2),
            mainTailByRoot := (mainTailByRoot st)(msg_id m \<mapsto> msg_id m),
            changed := True\<rparr>)"

text \<open>
  The body of the loop over \<open>next\<close> at index \<open>i\<close>. The result is \<open>None\<close> when the lookup of
  the root id does not return.
\<close>

definition placeAt :: "env \<Rightarrow> message list \<Rightarrow> nat \<Rightarrow> pass_state \<Rightarrow> pass_state option" where
  "placeAt e cur i st =
     (let m = nextMsgs st ! i
      in if msg_x m \<noteq> None \<and> msg_y m \<noteq> None then Some st
         else case bubbleSizes e (msg_id m) of
           None \<Rightarrow> Some st
         | Some sz \<Rightarrow>
             (case parentId m of
                Some pid \<Rightarrow>
                  (case getPlacedRectById e cur (nextMsgs st) pid of
                     None \<Rightarrow> Some st
                   | Some pr \<Rightarrow>
                       if (case find (\<lambda>q. msg_id q = pid) cur of
                             None \<Rightarrow> True | Some pm \<Rightarrow> msg_x pm = None)
                       then Some st
                       else (case getRootIdOf cur pid of
                               None \<Rightarrow> None
                             | Some rootId \<Rightarrow> Some (placeChild e cur i m sz pid pr rootId st)))
              | None \<Rightarrow> Some (placeRoot e i m sz st)))"

fun placeLoop :: "env \<Rightarrow> message list \<Rightarrow> nat list \<Rightarrow> pass_state \<Rightarrow> pass_state option" where
  "placeLoop e cur [] st = Some st"
| "placeLoop e cur (i # is) st =
     (case placeAt e cur i st of None \<Rightarrow> None | Some st' \<Rightarrow> placeLoop e cur is st')"

text \<open>
  The tables kept across passes and the pending stage size, as the pass finds them.
\<close>

record refs =
  rootCentersRef :: "msg_id \<rightharpoonup> rat"
  mainTailByRootRef :: "msg_id \<rightharpoonup> msg_id"
  pendingStage :: stage_size

text \<open>
  The result of a pass: the list committed with \<open>setMessages\<close>, if any (\<open>None\<close> when
  \<open>changed\<close> is false and nothing is committed), and the tables and stage after it.
\<close>

record pass_result =
  committed :: "message list option"
  refsAfter :: refs

definition placementPass :: "env \<Rightarrow> message list \<Rightarrow> refs \<Rightarrow> pass_result option" where
  "placementPass e cur rf =
     (case placeLoop e cur [0..<length cur]
             \<lparr>nextMsgs = cur, rootCenters = rootCentersRef rf,
              mainTailByRoot = mainTailByRootRef rf, localMainTail = mainTailByRootRef rf,
              changed = False, stageSize = pendingStage rf\<rparr> of
        None \<Rightarrow> None
      | Some st \<Rightarrow>
          Some \<lparr>committed = (if changed st then Some (nextMsgs st) else None),
                refsAfter = \<lparr>rootCentersRef = rootCenters st,
                             mainTailByRootRef = (if changed st then localMainTail st
                                                  else mainTailByRoot st),
                             pendingStage = stageSize st\<rparr>\<rparr>)"

subsection \<open>Notions used to state the properties\<close>

text \<open>
  For \<open>findSlotBelow\<close>: the row just below the parent, the column at distance 0 from
  the parent's centre, and the test that lets the loop return a column.
\<close>

definition belowRow :: "pxRect \<Rightarrow> int" where
  "belowRow pr = toRow (px_y pr + px_h pr) + gapCells"

definition belowStartCol :: "pxRect \<Rightarrow> rat \<Rightarrow> int" where
  "belowStartCol pr w = toCol (px_x pr + px_w pr / 2) - spanOf w div 2"

definition freeColBelow :: "occRect list \<Rightarrow> pxRect \<Rightarrow> rat \<Rightarrow> rat \<Rightarrow> int \<Rightarrow> bool" where
  "freeColBelow occRects pr w h c =
     (c \<ge> leftEdgeCol \<and> isFreeRect occRects c (belowRow pr) (spanOf w) (spanOf h))"

text \<open>
  The footprint as the specification words it: the pixel rectangle expanded by the fixed
  padding and converted to grid cells (column and row of the corner, spans of the padded
  size), then padded by \<open>padCells\<close> on the left, on the right, above and below.
\<close>

definition paddedOnAllSides :: "pxRect \<Rightarrow> 'a gridRect_scheme \<Rightarrow> bool" where
  "paddedOnAllSides r g =
     (g_col g = toCol (px_x r) - padCells \<and>
      g_row g = toRow (px_y r) - padCells \<and>
      g_col g + g_spanX g = toCol (px_x r) + spanOf (px_w r) + padCells \<and>
      g_row g + g_spanY g = toRow (px_y r) + spanOf (px_h r) + padCells)"

text \<open>
  For the frame of the resolver: \<open>b\<close> is \<open>a\<close> with at most its coordinates changed; it
  is still placed when \<open>a\<close> is placed, and is \<open>a\<close> itself when \<open>a\<close> is not placed.
\<close>

definition coordsAdjusted :: "message \<Rightarrow> message \<Rightarrow> bool" where
  "coordsAdjusted a b =
     (b\<lparr>msg_x := msg_x a, msg_y := msg_y a\<rparr> = a \<and> (if placed a then placed b else b = a))"

text \<open>
  \<open>adjustedList ms out\<close>: the list \<open>out\<close> is, message by message, a rearrangement of
  \<open>ms\<close> with coordinates adjusted.
\<close>

definition adjustedList :: "message list \<Rightarrow> message list \<Rightarrow> bool" where
  "adjustedList ms out = (\<exists>p. mset p = mset ms \<and> list_all2 coordsAdjusted p out)"

text \<open>
  Grid alignment: \<open>v\<close> is an integer multiple of \<open>GRID\<close>; a message is aligned when each
  of its non-null coordinates is.
\<close>

definition gridMultiple :: "rat \<Rightarrow> bool" where
  "gridMultiple v = (of_int \<lfloor>v / GRID\<rfloor> * GRID = v)"

definition gridAligned :: "message \<Rightarrow> bool" where
  "gridAligned m =
     ((case msg_x m of None \<Rightarrow> True | Some u \<Rightarrow> gridMultiple u) \<and>
      (case msg_y m of None \<Rightarrow> True | Some v \<Rightarrow> gridMultiple v))"

text \<open>
  \<open>placedFrom cur nxt\<close>: the list \<open>nxt\<close> is \<open>cur\<close> in which some messages that were not
  placed have been given coordinates on the grid.
\<close>

definition placedFrom :: "message list \<Rightarrow> message list \<Rightarrow> bool" where
  "placedFrom cur nxt =
     (length nxt = length cur \<and>
      (\<forall>k<length cur.
         nxt ! k = cur ! k \<or>
         (\<not> placed (cur ! k) \<and>
          (\<exists>u v. gridMultiple u \<and> gridMultiple v \<and>
                 nxt ! k = (cur ! k)\<lparr>msg_x := Some u, msg_y := Some v\<rparr>))))"

subsection \<open>Example data\<close>

text \<open>Concrete messages, sizes and pass states on which the properties are evaluated.\<close>

definition mkMsg :: "msg_id \<Rightarrow> msg_id option \<Rightarrow> bool \<Rightarrow> rat option \<Rightarrow> rat option \<Rightarrow> message" where
  "mkMsg i p t u v =
     \<lparr>msg_id = i, parentId = p, threadId = None, isThread = t, senderId = ''local-user'',
      msg_text = [], timestamp = [], msg_x = u, msg_y = v\<rparr>"

definition mkEnv :: "(msg_id \<rightharpoonup> bubble_size) \<Rightarrow> rat \<Rightarrow> env" where
  "mkEnv szs w =
     \<lparr>bubbleSizes = szs, messageRefs = Map.empty, canvasRef = True,
      stageSizeRef = \<lparr>stage_width = w, stage_height = 800\<rparr>,
      viewport = \<lparr>stage_width = w, stage_height = 800\<rparr>\<rparr>"

definition mkSize :: "rat \<Rightarrow> rat \<Rightarrow> bubble_size" where
  "mkSize w h = \<lparr>size_w = w, size_h = h\<rparr>"

definition exChain :: "message list" where
  "exChain = [mkMsg ''r'' None False None None, mkMsg ''c'' (Some ''r'') False None None]"

definition exParent :: pxRect where
  "exParent = \<lparr>px_x = 400, px_y = 80, px_w = 200, px_h = 100\<rparr>"

definition exSizes :: "msg_id \<rightharpoonup> bubble_size" where
  "exSizes = [''a'' \<mapsto> mkSize 200 100, ''b'' \<mapsto> mkSize 200 100,
              ''big'' \<mapsto> mkSize 300 300, ''small'' \<mapsto> mkSize 50 50]"

definition exStage :: stage_size where
  "exStage = \<lparr>stage_width = 1000, stage_height = 800\<rparr>"

definition exEnv :: env where
  "exEnv = mkEnv exSizes 1000"

definition exSiblings :: "message list" where
  "exSiblings = [mkMsg ''a'' (Some ''p'') True (Some 100) (Some 100),
                 mkMsg ''b'' (Some ''p'') True (Some 280) (Some 100)]"



definition exPlaced :: message where
  "exPlaced = mkMsg ''a'' None False (Some 400) (Some 200)"

definition exMixed :: "message list" where
  "exMixed = [mkMsg ''b'' None False (Some 150) (Some 120),
              mkMsg ''u'' (Some ''a'') True None None,
              mkMsg ''a'' None False (Some 100) (Some 100)]"

definition exDragged :: "message list" where
  "exDragged = [mkMsg ''a'' None False (Some 85) (Some 93),
                mkMsg ''b'' None False None None]"

definition exRefs :: refs where
  "exRefs = \<lparr>rootCentersRef = Map.empty, mainTailByRootRef = Map.empty, pendingStage = exStage\<rparr>"

definition exRootEnv :: env where
  "exRootEnv = mkEnv [''r1'' \<mapsto> mkSize 100 105, ''r2'' \<mapsto> mkSize 110 50] 1000"

definition exRoots :: "message list" where
  "exRoots = [mkMsg ''r1'' None False None None, mkMsg ''r2'' None False None None]"

definition exRootState :: pass_state where
  "exRootState =
     \<lparr>nextMsgs = [mkMsg ''r1'' None False (Some 460) (Some 80), mkMsg ''r2'' None False None None],
      rootCenters = [''r1'' \<mapsto> 510], mainTailByRoot = Map.empty, localMainTail = Map.empty,
      changed = True, stageSize = exStage\<rparr>"

definition exMainEnv :: env where
  "exMainEnv = mkEnv [''r'' \<mapsto> mkSize 200 100, ''c'' \<mapsto> mkSize 110 50] 1000"

definition exMain :: "message list" where
  "exMain = [mkMsg ''r'' None False (Some 400) (Some 80), mkMsg ''c'' (Some ''r'') False None None]"

definition exMainRefs :: refs where
  "exMainRefs =
     \<lparr>rootCentersRef = [''r'' \<mapsto> 500], mainTailByRootRef = Map.empty, pendingStage = exStage\<rparr>"

definition exMainState :: pass_state where
  "exMainState =
     \<lparr>nextMsgs = exMain, rootCenters = [''r'' \<mapsto> 500], mainTailByRoot = Map.empty,
      localMainTail = Map.empty, changed = False, stageSize = exStage\<rparr>"

definition exHalfEnv :: env where
  "exHalfEnv = mkEnv [''a'' \<mapsto> mkSize 200 101, ''b'' \<mapsto> mkSize 200 100] 1000"

definition exHalf :: "message list" where
  "exHalf = [mkMsg ''a'' (Some ''p'') True (Some 100) (Some 100),
             mkMsg ''b'' (Some ''p'') True (Some 280) (Some (301 / 2))]"

section \<open>Constants\<close>

lemma gapCells_eq: "gapCells = 3"
  by (simp add: gapCells_def GAP_def GRID_def round_def floor_eq_iff)

lemma padCells_eq: "padCells = 1"
  by (simp add: padCells_def PADDING_def GRID_def round_def floor_eq_iff)

lemma leftEdgeCol_eq: "leftEdgeCol = 4"
  by (simp add: leftEdgeCol_def EDGE_PADDING_def GRID_def)

lemma sideGapCells_eq: "sideGapCells = 6"
  by (simp add: sideGapCells_def SIDE_GAP_def GRID_def round_def floor_eq_iff)

section \<open>Root lookup\<close>

lemma chainEnds_followParents:
  "chainEnds tbl cur r \<Longrightarrow> followParents tbl cur = Some r"
  by (induction rule: chainEnds.induct) (simp_all add: followParents.simps)

text \<open>
  C10. On a message list whose parentId pointers are acyclic, \<open>getRootIdOf\<close> returns: its
  result is the id of the last message reached by following the parentId pointers from the
  given id, and the given id itself when the chain breaks on a missing entry.
\<close>

theorem getRootIdOf_acyclic:
  assumes "acyclic_parents ms"
  shows "\<exists>r. chainEnds (idToMsg ms) (idToMsg ms i) r \<and>
             getRootIdOf ms i = Some (case r of None \<Rightarrow> i | Some m \<Rightarrow> msg_id m)"
proof -
  from assms obtain r where r: "chainEnds (idToMsg ms) (idToMsg ms i) r"
    unfolding acyclic_parents_def by blast
  then have "followParents (idToMsg ms) (idToMsg ms i) = Some r"
    by (rule chainEnds_followParents)
  then have "getRootIdOf ms i = Some (case r of None \<Rightarrow> i | Some m \<Rightarrow> msg_id m)"
    by (simp add: getRootIdOf_def)
  with r show ?thesis by blast
qed

lemma idToMsg_exChain:
  "idToMsg exChain i =
     (if i = ''c'' then Some (mkMsg ''c'' (Some ''r'') False None None)
      else if i = ''r'' then Some (mkMsg ''r'' None False None None) else None)"
  by (simp add: idToMsg_def exChain_def mkMsg_def)

lemma acyclic_exChain: "acyclic_parents exChain"
  unfolding acyclic_parents_def
proof
  fix i
  have r: "chainEnds (idToMsg exChain) (Some (mkMsg ''r'' None False None None))
             (Some (mkMsg ''r'' None False None None))"
    by (rule chainEnds.root) (simp add: mkMsg_def)
  have c: "chainEnds (idToMsg exChain) (Some (mkMsg ''c'' (Some ''r'') False None None))
             (Some (mkMsg ''r'' None False None None))"
    by (rule chainEnds.step[where p="''r''"])
       (simp_all add: mkMsg_def idToMsg_exChain r[unfolded mkMsg_def])
  show "\<exists>r. chainEnds (idToMsg exChain) (idToMsg exChain i) r"
    using r c chainEnds.missing by (auto simp: idToMsg_exChain)
qed

theorem getRootIdOf_acyclic_witness:
  "acyclic_parents exChain \<and> getRootIdOf exChain ''c'' = Some ''r''"
proof -
  from getRootIdOf_acyclic[OF acyclic_exChain, of "''c''"]
  obtain r where r: "chainEnds (idToMsg exChain) (idToMsg exChain ''c'') r"
    and g: "getRootIdOf exChain ''c'' = Some (case r of None \<Rightarrow> ''c'' | Some m \<Rightarrow> msg_id m)"
    by blast
  from r have "followParents (idToMsg exChain) (idToMsg exChain ''c'') = Some r"
    by (rule chainEnds_followParents)
  then have "r = Some (mkMsg ''r'' None False None None)"
    by (simp add: idToMsg_exChain followParents.simps mkMsg_def)
  with g have "getRootIdOf exChain ''c'' = Some ''r''"
    by (simp add: mkMsg_def)
  with acyclic_exChain show ?thesis by simp
qed

section \<open>Bounded loops with an early return\<close>

lemma forFirst_None_iff:
  "forFirst i n body = None \<longleftrightarrow> (\<forall>k. i \<le> k \<and> k < n \<longrightarrow> body k = None)"
proof (induction i n body rule: forFirst.induct)
  case (1 i n body)
  show ?case
  proof (cases "i < n")
    case False
    then show ?thesis by (auto simp: forFirst.simps[of i])
  next
    case True
    show ?thesis
    proof (cases "body i")
      case (Some b)
      with True show ?thesis by (auto simp: forFirst.simps[of i])
    next
      case None
      have "(\<forall>k. i \<le> k \<and> k < n \<longrightarrow> body k = None) \<longleftrightarrow>
            (\<forall>k. Suc i \<le> k \<and> k < n \<longrightarrow> body k = None)"
        using None by (metis Suc_leI Suc_leD le_neq_implies_less)
      with "1.IH"[OF True None] True None show ?thesis
        by (simp add: forFirst.simps[of i])
    qed
  qed
qed

lemma forFirst_Some:
  "forFirst i n body = Some b \<Longrightarrow>
     \<exists>k. i \<le> k \<and> k < n \<and> body k = Some b \<and> (\<forall>k'. i \<le> k' \<and> k' < k \<longrightarrow> body k' = None)"
proof (induction i n body rule: forFirst.induct)
  case (1 i n body)
  from "1.prems" have lt: "i < n"
    by (simp add: forFirst.simps[of i] split: if_splits)
  show ?case
  proof (cases "body i")
    case (Some c)
    with "1.prems" lt have "c = b" by (simp add: forFirst.simps[of i])
    with Some lt show ?thesis by (intro exI[of _ i]) auto
  next
    case None
    with "1.prems" lt have "forFirst (Suc i) n body = Some b"
      by (simp add: forFirst.simps[of i])
    from "1.IH"[OF lt None this] obtain k where
      k: "Suc i \<le> k" "k < n" "body k = Some b" "\<forall>k'. Suc i \<le> k' \<and> k' < k \<longrightarrow> body k' = None"
      by blast
    have "\<forall>k'. i \<le> k' \<and> k' < k \<longrightarrow> body k' = None"
      using k(4) None by (metis Suc_leI le_neq_implies_less)
    with k show ?thesis by (intro exI[of _ k]) auto
  qed
qed

lemma forFirst_SomeD: "forFirst i n body = Some b \<Longrightarrow> \<exists>k. body k = Some b"
  by (blast dest: forFirst_Some)

section \<open>The placement pass on a settled layout\<close>

lemma placeLoop_all_placed:
  "\<forall>i\<in>set is. placed (nextMsgs st ! i) \<Longrightarrow> placeLoop e cur is st = Some st"
  by (induction "is") (auto simp: placeAt_def placed_def Let_def)

text \<open>
  C7. On a message list in which every message has non-null x and y the placement pass
  returns, commits no list (\<open>changed\<close> stays false, so no message's coordinates change) and
  leaves the tables and the stage as they were.
\<close>

theorem placementPass_settled:
  assumes "\<forall>m\<in>set cur. placed m"
  shows "placementPass e cur rf = Some \<lparr>committed = None, refsAfter = rf\<rparr>"
proof -
  let ?st = "\<lparr>nextMsgs = cur, rootCenters = rootCentersRef rf,
              mainTailByRoot = mainTailByRootRef rf, localMainTail = mainTailByRootRef rf,
              changed = False, stageSize = pendingStage rf\<rparr>"
  have "\<forall>i\<in>set [0..<length cur]. placed (nextMsgs ?st ! i)"
    using assms by simp
  then have "placeLoop e cur [0..<length cur] ?st = Some ?st"
    by (rule placeLoop_all_placed)
  then show ?thesis
    by (simp add: placementPass_def)
qed

theorem placementPass_settled_witness:
  "placed (mkMsg ''r'' None False (Some 400) (Some 80)) \<and>
   placed (mkMsg ''c'' (Some ''r'') False (Some 440) (Some 240)) \<and>
   placementPass (mkEnv Map.empty 1000)
     [mkMsg ''r'' None False (Some 400) (Some 80),
      mkMsg ''c'' (Some ''r'') False (Some 440) (Some 240)]
     \<lparr>rootCentersRef = Map.empty, mainTailByRootRef = Map.empty,
      pendingStage = \<lparr>stage_width = 1000, stage_height = 800\<rparr>\<rparr>
   = Some \<lparr>committed = None,
           refsAfter = \<lparr>rootCentersRef = Map.empty, mainTailByRootRef = Map.empty,
                        pendingStage = \<lparr>stage_width = 1000, stage_height = 800\<rparr>\<rparr>\<rparr>"
proof -
  have h: "\<forall>m\<in>set [mkMsg ''r'' None False (Some 400) (Some 80),
               mkMsg ''c'' (Some ''r'') False (Some 440) (Some 240)]. placed m"
    by (simp add: placed_def mkMsg_def)
  from placementPass_settled[OF h] h show ?thesis by simp
qed

section \<open>The slot below a parent\<close>

lemma belowAttempt_None_iff:
  "belowAttempt occ (toCol (px_x pr + px_w pr / 2)) (belowRow pr) (spanOf w) (spanOf h) (int d) = None
   \<longleftrightarrow> \<not> freeColBelow occ pr w h (belowStartCol pr w + int d) \<and>
       \<not> freeColBelow occ pr w h (belowStartCol pr w - int d)"
  by (simp add: belowAttempt_def freeColBelow_def belowStartCol_def Let_def)

lemma belowAttempt_Some:
  "belowAttempt occ (toCol (px_x pr + px_w pr / 2)) (belowRow pr) (spanOf w) (spanOf h) (int d) = Some res
   \<Longrightarrow> (if freeColBelow occ pr w h (belowStartCol pr w + int d)
        then res = slotAt (belowStartCol pr w + int d) (belowRow pr) Below
        else freeColBelow occ pr w h (belowStartCol pr w - int d) \<and>
             res = slotAt (belowStartCol pr w - int d) (belowRow pr) Below)"
  by (auto simp: belowAttempt_def freeColBelow_def belowStartCol_def Let_def split: if_splits)

text \<open>The test of a column includes the left edge: the guard of the loop adds nothing.\<close>

lemma freeColBelow_iff:
  "freeColBelow occ pr w h c \<longleftrightarrow> isFreeRect occ c (belowRow pr) (spanOf w) (spanOf h)"
  by (auto simp: freeColBelow_def isFreeRect_def)

text \<open>
  C6. \<open>findSlotBelow\<close> always returns a position. It scans the distances
  \<open>d = 0, \<dots>, 499\<close> from the parent's centre column on the row just below the parent, at
  each distance trying the column shifted right before the one shifted left, and returns
  the first free column; when no column is free within the bound it returns the fallback
  \<open>(snap(parent.x), snap(parent.y + parent.h + GAP))\<close>, which is not checked against the
  occupancy.
\<close>

theorem findSlotBelow_scan:
  "maxSpread = 500 \<and>
   ((\<exists>d<maxSpread.
       (\<forall>d'<d. \<not> freeColBelow occ pr w h (belowStartCol pr w + int d') \<and>
               \<not> freeColBelow occ pr w h (belowStartCol pr w - int d')) \<and>
       (if freeColBelow occ pr w h (belowStartCol pr w + int d)
        then findSlotBelow occ pr w h = slotAt (belowStartCol pr w + int d) (belowRow pr) Below
        else freeColBelow occ pr w h (belowStartCol pr w - int d) \<and>
             findSlotBelow occ pr w h = slotAt (belowStartCol pr w - int d) (belowRow pr) Below))
    \<or>
    ((\<forall>d<maxSpread. \<not> freeColBelow occ pr w h (belowStartCol pr w + int d) \<and>
                    \<not> freeColBelow occ pr w h (belowStartCol pr w - int d)) \<and>
     findSlotBelow occ pr w h =
       \<lparr>slot_x = snap (px_x pr), slot_y = snap (px_y pr + px_h pr + GAP), slot_side = Below\<rparr>))"
proof -
  let ?f = "belowAttempt occ (toCol (px_x pr + px_w pr / 2)) (belowRow pr) (spanOf w) (spanOf h)"
  have unfold: "findSlotBelow occ pr w h =
      (case forFirst 0 maxSpread (\<lambda>d. ?f (int d)) of Some res \<Rightarrow> res
       | None \<Rightarrow> \<lparr>slot_x = snap (px_x pr), slot_y = snap (px_y pr + GAP + px_h pr), slot_side = Below\<rparr>)"
    by (simp add: findSlotBelow_def belowRow_def Let_def)
  have "?thesis" if "forFirst 0 maxSpread (\<lambda>d. ?f (int d)) = None"
  proof -
    from that have "\<forall>d<maxSpread. ?f (int d) = None"
      by (simp add: forFirst_None_iff)
    then have "\<forall>d<maxSpread. \<not> freeColBelow occ pr w h (belowStartCol pr w + int d) \<and>
                    \<not> freeColBelow occ pr w h (belowStartCol pr w - int d)"
      by (simp add: belowAttempt_None_iff)
    moreover have "findSlotBelow occ pr w h =
       \<lparr>slot_x = snap (px_x pr), slot_y = snap (px_y pr + px_h pr + GAP), slot_side = Below\<rparr>"
      using that by (simp add: unfold add.commute add.left_commute)
    ultimately show ?thesis by (simp add: maxSpread_def)
  qed
  moreover have "?thesis" if "forFirst 0 maxSpread (\<lambda>d. ?f (int d)) = Some res" for res
  proof -
    from forFirst_Some[OF that] obtain k where
      k: "k < maxSpread" "?f (int k) = Some res" "\<forall>k'<k. ?f (int k') = None"
      by auto
    have res: "findSlotBelow occ pr w h = res"
      using that by (simp add: unfold)
    have "\<forall>d'<k. \<not> freeColBelow occ pr w h (belowStartCol pr w + int d') \<and>
               \<not> freeColBelow occ pr w h (belowStartCol pr w - int d')"
      using k(3) by (simp add: belowAttempt_None_iff)
    moreover note belowAttempt_Some[OF k(2)]
    ultimately show ?thesis
      using k(1) res by (auto simp: maxSpread_def)
  qed
  ultimately show ?thesis
    by (cases "forFirst 0 maxSpread (\<lambda>d. ?f (int d))") auto
qed

theorem findSlotBelow_scan_witness:
  "freeColBelow [] exParent 110 50 22 \<and> findSlotBelow [] exParent 110 50 = \<lparr>slot_x = 440, slot_y = 240, slot_side = Below\<rparr>"
proof -
  have c0: "belowStartCol exParent 110 = 22"
    by code_simp
  have row: "belowRow exParent = 12"
    by code_simp
  have free: "freeColBelow [] exParent 110 50 22"
    by code_simp
  have sl: "slotAt 22 12 Below = \<lparr>slot_x = 440, slot_y = 240, slot_side = Below\<rparr>"
    by code_simp
  from findSlotBelow_scan[of "[]" exParent 110 50]
  have "findSlotBelow [] exParent 110 50 = slotAt 22 12 Below"
    unfolding c0 row
  proof (elim conjE disjE exE)
    fix d
    assume d: "\<forall>d'<d. \<not> freeColBelow [] exParent 110 50 (22 + int d') \<and>
               \<not> freeColBelow [] exParent 110 50 (22 - int d')"
      and r: "if freeColBelow [] exParent 110 50 (22 + int d)
        then findSlotBelow [] exParent 110 50 = slotAt (22 + int d) 12 Below
        else freeColBelow [] exParent 110 50 (22 - int d) \<and>
             findSlotBelow [] exParent 110 50 = slotAt (22 - int d) 12 Below"
    have "d = 0"
    proof (rule ccontr)
      assume "d \<noteq> 0"
      then have "0 < d" by simp
      with d have "\<not> freeColBelow [] exParent 110 50 (22 + int 0)" by blast
      with free show False by simp
    qed
    with r free show ?thesis by simp
  next
    assume "\<forall>d<maxSpread. \<not> freeColBelow [] exParent 110 50 (22 + int d) \<and>
                    \<not> freeColBelow [] exParent 110 50 (22 - int d)"
    then have "0 < maxSpread \<longrightarrow> \<not> freeColBelow [] exParent 110 50 (22 + int 0)"
      by blast
    then have "\<not> freeColBelow [] exParent 110 50 (22 + int 0)"
      by (simp add: maxSpread_def)
    with free show ?thesis by simp
  qed
  with free sl show ?thesis by simp
qed

section \<open>Snapping\<close>

lemma snap_ge: "v - GRID / 2 \<le> snap v"
  using of_int_round_ge[of "v / GRID"] by (simp add: snap_def GRID_def field_simps)

lemma snap_le: "snap v \<le> v + GRID / 2"
  using of_int_round_le[of "v / GRID"] by (simp add: snap_def GRID_def field_simps)

lemma clampYNoBottom_ge: "v - GRID / 2 \<le> clampYNoBottom v"
  using snap_ge[of "max EDGE_PADDING v"] by (simp add: clampYNoBottom_def)

section \<open>The overlap resolver: one pair\<close>

lemma getRectFor_placed:
  "msg_x m = Some u \<Longrightarrow> msg_y m = Some v \<Longrightarrow>
   px_x (getRectFor e m) = u \<and> px_y (getRectFor e m) = v"
  by (simp add: getRectFor_def orElse_def Let_def split: option.splits)

lemma adjustOverlap_cases:
  assumes xb: "msg_x B = Some xb" and yb: "msg_y B = Some yb"
    and ox: "0 < ox" and oy: "0 < oy"
  shows "(if (oy \<ge> ox \<or> \<not> isThread A \<or> \<not> isThread B) \<and>
             \<not> (parentId A \<noteq> None \<and> parentId A = parentId B \<and>
                \<bar>px_y (getRectFor e A) - px_y (getRectFor e B)\<bar>
                  \<le> max GRID (of_int \<lfloor>px_h (getRectFor e A) / 2\<rfloor>))
          then fst (adjustOverlap e A B ox oy stg) = B\<lparr>msg_y := Some (clampYNoBottom (yb + oy + PADDING))\<rparr> \<and>
               yb < clampYNoBottom (yb + oy + PADDING)
          else (\<exists>u. fst (adjustOverlap e A B ox oy stg) = B\<lparr>msg_x := Some u\<rparr> \<and> u \<noteq> xb \<and>
                  (u = snap (xb + ox + PADDING) \<or> u = snap (xb - (ox + PADDING)))))"
proof -
  have down: "yb < clampYNoBottom (yb + oy + PADDING)"
    using clampYNoBottom_ge[of "yb + oy + PADDING"] oy by (simp add: GRID_def PADDING_def)
  have r: "xb < snap (xb + ox + PADDING)"
    using snap_ge[of "xb + ox + PADDING"] ox by (simp add: GRID_def PADDING_def)
  have l: "snap (xb - (ox + PADDING)) < xb"
    using snap_le[of "xb - (ox + PADDING)"] ox by (simp add: GRID_def PADDING_def)
  show ?thesis
    using down r l by (auto simp: adjustOverlap_def Let_def xb yb orElse_def)
qed

lemma pairStep_overlapping:
  assumes "placed A" "placed B" "overlapAmount e A B = (ox, oy)" "0 < ox" "0 < oy"
    and "upd ! i = A" "upd ! j = B"
  shows "pairStep e (i, j) (upd, ch, stg) =
           (upd[j := fst (adjustOverlap e A B ox oy stg)], True, snd (adjustOverlap e A B ox oy stg))"
  using assms by (auto simp: pairStep_def placed_def Let_def split: prod.splits)

lemma pairStep_unchanged:
  assumes "\<not> (placed (upd ! i) \<and> placed (upd ! j) \<and>
             0 < fst (overlapAmount e (upd ! i) (upd ! j)) \<and>
             0 < snd (overlapAmount e (upd ! i) (upd ! j)))"
  shows "pairStep e (i, j) (upd, ch, stg) = (upd, ch, stg)"
  using assms by (auto simp: pairStep_def placed_def Let_def split: prod.splits)

text \<open>
  The row tolerance uses \<open>Math.floor(Ar.h / 2)\<close>. For tops that differ by a whole number
  of pixels the test is the same as with \<open>Ar.h / 2\<close>.
\<close>

lemma rowTol_whole_pixels:
  "\<bar>of_int n\<bar> \<le> max GRID (of_int \<lfloor>h / 2\<rfloor>) \<longleftrightarrow> \<bar>of_int n :: rat\<bar> \<le> max GRID (h / 2)"
proof -
  have "(of_int \<bar>n\<bar> :: rat) \<le> of_int \<lfloor>h / 2\<rfloor> \<longleftrightarrow> of_int \<bar>n\<bar> \<le> h / 2"
    by (simp only: of_int_le_iff le_floor_iff)
  then show ?thesis
    by (auto simp: le_max_iff_disj simp flip: of_int_abs)
qed

text \<open>
  The body of the loop on a truly overlapping placed pair: \<open>B\<close> is replaced, either pushed
  down (only its y changes, and grows) or moved sideways (only its x changes).
\<close>

lemma pairStep_direction:
  assumes ij: "i < j" "j < length upd"
    and A: "upd ! i = A" and B: "upd ! j = B"
    and pl: "placed A" "placed B"
    and ov: "overlapAmount e A B = (ox, oy)" "0 < ox" "0 < oy"
  shows "\<exists>nb stg'. pairStep e (i, j) (upd, ch, stg) = (upd[j := nb], True, stg') \<and>
     (if (oy \<ge> ox \<or> \<not> isThread A \<or> \<not> isThread B) \<and>
         \<not> (parentId A \<noteq> None \<and> parentId A = parentId B \<and>
            \<bar>px_y (getRectFor e A) - px_y (getRectFor e B)\<bar>
              \<le> max GRID (of_int \<lfloor>px_h (getRectFor e A) / 2\<rfloor>))
      then nb = B\<lparr>msg_y := Some (clampYNoBottom (px_y (getRectFor e B) + oy + PADDING))\<rparr> \<and>
           px_y (getRectFor e B) < clampYNoBottom (px_y (getRectFor e B) + oy + PADDING)
      else (\<exists>u. nb = B\<lparr>msg_x := Some u\<rparr> \<and> u \<noteq> px_x (getRectFor e B) \<and>
              (u = snap (px_x (getRectFor e B) + ox + PADDING) \<or>
               u = snap (px_x (getRectFor e B) - (ox + PADDING)))))"
proof -
  from pl(2) obtain xb yb where b: "msg_x B = Some xb" "msg_y B = Some yb"
    by (auto simp: placed_def)
  have r: "px_x (getRectFor e B) = xb" "px_y (getRectFor e B) = yb"
    using getRectFor_placed[OF b] by simp_all
  show ?thesis
    using pairStep_overlapping[OF pl ov A B, of ch stg]
      adjustOverlap_cases[OF b ov(2,3), of A e stg]
    unfolding r by (intro exI conjI) assumption+
qed




section \<open>The overlap resolver: one pass\<close>

lemma set_indexPairs: "set (indexPairs n) = {(i, j). i < j \<and> j < n}"
  by (force simp: indexPairs_def)

lemma distinct_indexPairs: "distinct (indexPairs n)"
  unfolding indexPairs_def
proof (rule distinct_concat)
  have "x = y" if "x < n" "y < n" "map (Pair x) [Suc x..<n] = map (Pair y) [Suc y..<n]" for x y
  proof -
    from that(3) have "length (map (Pair x) [Suc x..<n]) = length (map (Pair y) [Suc y..<n])"
      by simp
    with that(1,2) show ?thesis by simp
  qed
  then show "distinct (map (\<lambda>i. map (Pair i) [Suc i..<n]) [0..<n])"
    by (auto simp: distinct_map inj_on_def)
qed (auto simp: distinct_map inj_on_def)

lemma fold_pairStep_length:
  "length (fst (fold (pairStep e) ps st)) = length (fst st)"
proof (induction ps arbitrary: st)
  case Nil
  then show ?case by simp
next
  case (Cons a ps)
  have "length (fst (pairStep e a st)) = length (fst st)"
    by (cases a; cases st) (auto simp: pairStep_def Let_def split: prod.splits)
  with Cons show ?case by simp
qed

lemma sortMessages_sorted:
  "sorted (map sortKey (sortMessages ms)) \<and> mset (sortMessages ms) = mset ms"
  by (simp add: sortMessages_def)

text \<open>
  C5 (amended). In a resolver pass the array is sorted by (y, x) and every index pair
  \<open>i < j\<close> is visited once. When the pair is visited and \<open>A\<close> (at \<open>i\<close>) and \<open>B\<close> (at
  \<open>j\<close>) are placed and truly overlap, \<open>B\<close> is replaced and \<open>changed\<close> is set: \<open>B\<close> is pushed
  down (only its y changes, and grows) exactly when the vertical overlap is at least the
  horizontal overlap or one of the two messages is a main-chain message, except that when
  \<open>A\<close> and \<open>B\<close> have the same non-null parentId and their tops differ by at most the
  maximum of one grid unit and \<open>floor(A.h / 2)\<close>, half of \<open>A\<close>'s height rounded down, the
  choice is overridden and \<open>B\<close> is moved sideways (only its x changes).
\<close>

theorem resolvePass_push_direction:
  assumes ij: "i < j" "j < length updated"
  shows "sorted (map sortKey (sortMessages updated)) \<and>
         mset (sortMessages updated) = mset updated \<and>
         (\<exists>ps1 ps2 upd ch stg1.
            indexPairs (length updated) = ps1 @ (i, j) # ps2 \<and>
            (i, j) \<notin> set ps1 \<and> (i, j) \<notin> set ps2 \<and>
            fold (pairStep e) ps1 (sortMessages updated, False, stg) = (upd, ch, stg1) \<and>
            length upd = length updated \<and>
            resolvePass e updated stg = fold (pairStep e) ps2 (pairStep e (i, j) (upd, ch, stg1)) \<and>
            (\<forall>ox oy.
               placed (upd ! i) \<and> placed (upd ! j) \<and>
               overlapAmount e (upd ! i) (upd ! j) = (ox, oy) \<and> 0 < ox \<and> 0 < oy \<longrightarrow>
               (\<exists>nb stg'. pairStep e (i, j) (upd, ch, stg1) = (upd[j := nb], True, stg') \<and>
                  (if (oy \<ge> ox \<or> \<not> isThread (upd ! i) \<or> \<not> isThread (upd ! j)) \<and>
                      \<not> (parentId (upd ! i) \<noteq> None \<and> parentId (upd ! i) = parentId (upd ! j) \<and>
                         \<bar>px_y (getRectFor e (upd ! i)) - px_y (getRectFor e (upd ! j))\<bar>
                           \<le> max GRID (of_int \<lfloor>px_h (getRectFor e (upd ! i)) / 2\<rfloor>))
                   then nb = (upd ! j)\<lparr>msg_y := Some (clampYNoBottom
                                 (px_y (getRectFor e (upd ! j)) + oy + PADDING))\<rparr> \<and>
                        px_y (getRectFor e (upd ! j))
                          < clampYNoBottom (px_y (getRectFor e (upd ! j)) + oy + PADDING)
                   else (\<exists>u. nb = (upd ! j)\<lparr>msg_x := Some u\<rparr> \<and>
                           u \<noteq> px_x (getRectFor e (upd ! j)) \<and>
                           (u = snap (px_x (getRectFor e (upd ! j)) + ox + PADDING) \<or>
                            u = snap (px_x (getRectFor e (upd ! j)) - (ox + PADDING))))))))"
proof -
  let ?n = "length updated"
  let ?init = "(sortMessages updated, False, stg)"
  have len: "length (sortMessages updated) = ?n"
    by (simp add: sortMessages_def)
  from ij have "(i, j) \<in> set (indexPairs ?n)"
    by (simp add: set_indexPairs)
  then obtain ps1 ps2 where ps: "indexPairs ?n = ps1 @ (i, j) # ps2"
    by (auto dest: split_list)
  with distinct_indexPairs[of ?n] have once: "(i, j) \<notin> set ps1" "(i, j) \<notin> set ps2"
    by auto
  obtain upd ch stg1 where st: "fold (pairStep e) ps1 ?init = (upd, ch, stg1)"
    by (cases "fold (pairStep e) ps1 ?init")
  have l: "length upd = ?n"
    using fold_pairStep_length[of e ps1 ?init] st len by simp
  have run: "resolvePass e updated stg = fold (pairStep e) ps2 (pairStep e (i, j) (upd, ch, stg1))"
    by (simp add: resolvePass_def Let_def len ps st)
  have rule: "\<exists>nb stg'. pairStep e (i, j) (upd, ch, stg1) = (upd[j := nb], True, stg') \<and>
                  (if (oy \<ge> ox \<or> \<not> isThread (upd ! i) \<or> \<not> isThread (upd ! j)) \<and>
                      \<not> (parentId (upd ! i) \<noteq> None \<and> parentId (upd ! i) = parentId (upd ! j) \<and>
                         \<bar>px_y (getRectFor e (upd ! i)) - px_y (getRectFor e (upd ! j))\<bar>
                           \<le> max GRID (of_int \<lfloor>px_h (getRectFor e (upd ! i)) / 2\<rfloor>))
                   then nb = (upd ! j)\<lparr>msg_y := Some (clampYNoBottom
                                 (px_y (getRectFor e (upd ! j)) + oy + PADDING))\<rparr> \<and>
                        px_y (getRectFor e (upd ! j))
                          < clampYNoBottom (px_y (getRectFor e (upd ! j)) + oy + PADDING)
                   else (\<exists>u. nb = (upd ! j)\<lparr>msg_x := Some u\<rparr> \<and>
                           u \<noteq> px_x (getRectFor e (upd ! j)) \<and>
                           (u = snap (px_x (getRectFor e (upd ! j)) + ox + PADDING) \<or>
                            u = snap (px_x (getRectFor e (upd ! j)) - (ox + PADDING)))))"
    if "placed (upd ! i)" "placed (upd ! j)" "overlapAmount e (upd ! i) (upd ! j) = (ox, oy)"
      "0 < ox" "0 < oy" for ox oy
    using ij(1) _ refl refl that
  proof (rule pairStep_direction)
    show "j < length upd" using ij(2) l by simp
  qed
  from ps once st l run rule sortMessages_sorted[of updated] show ?thesis
    by blast
qed

theorem resolvePass_push_direction_witness:
  "0 < (1::nat) \<and> 1 < length exSiblings \<and>
   indexPairs (length exSiblings) = [(0, 1)] \<and>
   sortMessages exSiblings = exSiblings \<and>
   placed (exSiblings ! 0) \<and> placed (exSiblings ! 1) \<and>
   overlapAmount exEnv (exSiblings ! 0) (exSiblings ! 1) = (20, 100) \<and>
   parentId (exSiblings ! 0) = parentId (exSiblings ! 1) \<and>
   map msg_y (fst (resolvePass exEnv exSiblings exStage)) = [Some 100, Some 100]"
proof -
  have h: "(0::nat) < 1" "1 < length exSiblings"
    by code_simp+
  have c: "indexPairs (length exSiblings) = [(0, 1)]" "sortMessages exSiblings = exSiblings"
    "placed (exSiblings ! 0)" "placed (exSiblings ! 1)"
    "overlapAmount exEnv (exSiblings ! 0) (exSiblings ! 1) = (20, 100)"
    "parentId (exSiblings ! 0) = parentId (exSiblings ! 1)"
    by code_simp+
  have sib: "\<not> (((100::rat) \<ge> 20 \<or> \<not> isThread (exSiblings ! 0) \<or> \<not> isThread (exSiblings ! 1)) \<and>
         \<not> (parentId (exSiblings ! 0) \<noteq> None \<and> parentId (exSiblings ! 0) = parentId (exSiblings ! 1) \<and>
            \<bar>px_y (getRectFor exEnv (exSiblings ! 0)) - px_y (getRectFor exEnv (exSiblings ! 1))\<bar>
              \<le> max GRID (of_int \<lfloor>px_h (getRectFor exEnv (exSiblings ! 0)) / 2\<rfloor>)))"
    by code_simp
  from resolvePass_push_direction[OF h, of exEnv exStage]
  obtain ps1 ps2 upd ch stg1 where
    ps: "indexPairs (length exSiblings) = ps1 @ (0, 1) # ps2"
    and st: "fold (pairStep exEnv) ps1 (sortMessages exSiblings, False, exStage) = (upd, ch, stg1)"
    and run: "resolvePass exEnv exSiblings exStage =
                fold (pairStep exEnv) ps2 (pairStep exEnv (0, 1) (upd, ch, stg1))"
    and rule: "\<And>ox oy. placed (upd ! 0) \<and> placed (upd ! 1) \<and>
               overlapAmount exEnv (upd ! 0) (upd ! 1) = (ox, oy) \<and> 0 < ox \<and> 0 < oy \<Longrightarrow>
               (\<exists>nb stg'. pairStep exEnv (0, 1) (upd, ch, stg1) = (upd[1 := nb], True, stg') \<and>
                  (if (oy \<ge> ox \<or> \<not> isThread (upd ! 0) \<or> \<not> isThread (upd ! 1)) \<and>
                      \<not> (parentId (upd ! 0) \<noteq> None \<and> parentId (upd ! 0) = parentId (upd ! 1) \<and>
                         \<bar>px_y (getRectFor exEnv (upd ! 0)) - px_y (getRectFor exEnv (upd ! 1))\<bar>
                           \<le> max GRID (of_int \<lfloor>px_h (getRectFor exEnv (upd ! 0)) / 2\<rfloor>))
                   then nb = (upd ! 1)\<lparr>msg_y := Some (clampYNoBottom
                                 (px_y (getRectFor exEnv (upd ! 1)) + oy + PADDING))\<rparr> \<and>
                        px_y (getRectFor exEnv (upd ! 1))
                          < clampYNoBottom (px_y (getRectFor exEnv (upd ! 1)) + oy + PADDING)
                   else (\<exists>u. nb = (upd ! 1)\<lparr>msg_x := Some u\<rparr> \<and>
                           u \<noteq> px_x (getRectFor exEnv (upd ! 1)) \<and>
                           (u = snap (px_x (getRectFor exEnv (upd ! 1)) + ox + PADDING) \<or>
                            u = snap (px_x (getRectFor exEnv (upd ! 1)) - (ox + PADDING))))))"
    by blast
  from ps c(1) have e: "ps1 = []" "ps2 = []"
    by (cases ps1; simp)+
  with st c(2) have u: "upd = exSiblings" by simp
  from rule[of 20 100] c(3,4,5) sib obtain nb stg' w where
    p: "pairStep exEnv (0, 1) (upd, ch, stg1) = (upd[1 := nb], True, stg')"
    and nb: "nb = (exSiblings ! 1)\<lparr>msg_x := Some w\<rparr>"
    unfolding u by auto
  have "map msg_y (exSiblings[1 := (exSiblings ! 1)\<lparr>msg_x := Some w\<rparr>]) = [Some 100, Some 100]"
    by (simp add: exSiblings_def mkMsg_def)
  with run e p nb u have "map msg_y (fst (resolvePass exEnv exSiblings exStage)) = [Some 100, Some 100]"
    by simp
  with h c show ?thesis by blast
qed

text \<open>
  C5 as stated, with half of \<open>A\<close>'s height as the tolerance, fails: for \<open>A\<close> of height 101
  at y 100 and \<open>B\<close> at y 150.5 with the same parent, the tops differ by 50.5, which is
  half of \<open>A\<close>'s height, and \<open>B\<close> is pushed down to y 220, not moved sideways.
\<close>

theorem row_tolerance_half_counterexample:
  "sortMessages exHalf = exHalf \<and>
   placed (exHalf ! 0) \<and> placed (exHalf ! 1) \<and>
   parentId (exHalf ! 0) = Some ''p'' \<and> parentId (exHalf ! 1) = Some ''p'' \<and>
   overlapAmount exHalfEnv (exHalf ! 0) (exHalf ! 1) = (20, 101 / 2) \<and>
   px_h (getRectFor exHalfEnv (exHalf ! 0)) = 101 \<and>
   \<bar>px_y (getRectFor exHalfEnv (exHalf ! 0)) - px_y (getRectFor exHalfEnv (exHalf ! 1))\<bar>
     \<le> max GRID (px_h (getRectFor exHalfEnv (exHalf ! 0)) / 2) \<and>
   map (\<lambda>m. (msg_x m, msg_y m)) exHalf = [(Some 100, Some 100), (Some 280, Some (301 / 2))] \<and>
   map (\<lambda>m. (msg_x m, msg_y m)) (fst (resolvePass exHalfEnv exHalf exStage))
     = [(Some 100, Some 100), (Some 280, Some 220)]"
  by code_simp


section \<open>The occupancy index\<close>

text \<open>
  C3 (amended). \<open>buildOccupancy\<close> yields one rectangle for every placed message that is
  not excluded, in list order. The rectangle is the message's pixel rectangle expanded by
  the fixed padding and converted to grid cells, with the left edge moved \<open>padCells\<close>
  columns to the left, both spans enlarged by twice \<open>padCells\<close>, and the top row left at
  the message's own row; column and row are never less than \<open>leftEdgeCol\<close>. So, away from
  the clamp, the footprint extends \<open>padCells\<close> cells beyond the converted rectangle on the
  left and on the right, no cell above it and twice \<open>padCells\<close> cells below it.
\<close>

theorem buildOccupancy_footprint:
  "buildOccupancy e cur excludeIds =
     map (getMsgGridRect e) (filter (\<lambda>m. placed m \<and> msg_id m \<notin> set excludeIds) cur) \<and>
   occ_id (getMsgGridRect e m) = msg_id m \<and>
   g_col (getMsgGridRect e m) = max leftEdgeCol (toCol (px_x (getRectFor e m)) - padCells) \<and>
   g_row (getMsgGridRect e m) = max leftEdgeCol (toRow (px_y (getRectFor e m))) \<and>
   g_spanX (getMsgGridRect e m) = spanOf (px_w (getRectFor e m)) + 2 * padCells \<and>
   g_spanY (getMsgGridRect e m) = spanOf (px_h (getRectFor e m)) + 2 * padCells \<and>
   (leftEdgeCol \<le> toCol (px_x (getRectFor e m)) - padCells \<longrightarrow>
      g_col (getMsgGridRect e m) = toCol (px_x (getRectFor e m)) - padCells \<and>
      g_col (getMsgGridRect e m) + g_spanX (getMsgGridRect e m)
        = toCol (px_x (getRectFor e m)) + spanOf (px_w (getRectFor e m)) + padCells) \<and>
   (leftEdgeCol \<le> toRow (px_y (getRectFor e m)) \<longrightarrow>
      g_row (getMsgGridRect e m) = toRow (px_y (getRectFor e m)) \<and>
      g_row (getMsgGridRect e m) + g_spanY (getMsgGridRect e m)
        = toRow (px_y (getRectFor e m)) + spanOf (px_h (getRectFor e m)) + 2 * padCells)"
  by (auto simp: buildOccupancy_def getMsgGridRect_def placed_def spanOf_def Let_def)

theorem buildOccupancy_footprint_witness:
  "leftEdgeCol \<le> toCol (px_x (getRectFor exEnv exPlaced)) - padCells \<and>
   leftEdgeCol \<le> toRow (px_y (getRectFor exEnv exPlaced)) \<and>
   buildOccupancy exEnv [exPlaced] [] =
     [\<lparr>g_col = 19, g_row = 10, g_spanX = 14, g_spanY = 9, occ_id = ''a''\<rparr>] \<and>
   g_row (getMsgGridRect exEnv exPlaced) = toRow (px_y (getRectFor exEnv exPlaced)) \<and>
   g_row (getMsgGridRect exEnv exPlaced) + g_spanY (getMsgGridRect exEnv exPlaced)
        = toRow (px_y (getRectFor exEnv exPlaced)) + spanOf (px_h (getRectFor exEnv exPlaced)) + 2 * padCells"
proof -
  have h: "leftEdgeCol \<le> toCol (px_x (getRectFor exEnv exPlaced)) - padCells"
    "leftEdgeCol \<le> toRow (px_y (getRectFor exEnv exPlaced))"
    by code_simp+
  have b: "buildOccupancy exEnv [exPlaced] [] =
     [\<lparr>g_col = 19, g_row = 10, g_spanX = 14, g_spanY = 9, occ_id = ''a''\<rparr>]"
    by code_simp
  from buildOccupancy_footprint[of exEnv "[exPlaced]" "[]" exPlaced] h b show ?thesis
    by blast
qed

text \<open>
  C3 as stated fails above and below: the message at (400, 200) of height 100 has the
  converted rows 10 to 17; its footprint starts at row 10, not 9, and ends at row 19, not 18.
\<close>

theorem padded_above_counterexample:
  "buildOccupancy exEnv [exPlaced] [] = [getMsgGridRect exEnv exPlaced] \<and>
   toRow (px_y (getRectFor exEnv exPlaced)) = 10 \<and>
   spanOf (px_h (getRectFor exEnv exPlaced)) = 7 \<and>
   padCells = 1 \<and>
   g_row (getMsgGridRect exEnv exPlaced) = 10 \<and>
   g_row (getMsgGridRect exEnv exPlaced) + g_spanY (getMsgGridRect exEnv exPlaced) = 19 \<and>
   \<not> paddedOnAllSides (getRectFor exEnv exPlaced) (getMsgGridRect exEnv exPlaced)"
  by code_simp

section \<open>The overlap resolver: frame\<close>

lemma coordsAdjusted_refl: "coordsAdjusted a a"
  by (simp add: coordsAdjusted_def)

lemma same_frame_iff:
  "b\<lparr>msg_x := msg_x a, msg_y := msg_y a\<rparr> = a \<longleftrightarrow>
   b\<lparr>msg_x := None, msg_y := None\<rparr> = a\<lparr>msg_x := None, msg_y := None\<rparr>"
  by (cases a; cases b) simp

lemma coordsAdjusted_trans:
  assumes "coordsAdjusted a b" "coordsAdjusted b c"
  shows "coordsAdjusted a c"
  using assms unfolding coordsAdjusted_def same_frame_iff by (auto split: if_splits)

lemma adjustOverlap_coordsAdjusted:
  "placed B \<Longrightarrow> coordsAdjusted B (fst (adjustOverlap e A B ox oy stg))"
  by (simp add: adjustOverlap_def coordsAdjusted_def placed_def Let_def)

lemma normalizeMsg_coordsAdjusted: "coordsAdjusted m (normalizeMsg e m)"
  by (simp add: normalizeMsg_def coordsAdjusted_def placed_def split: option.splits)

lemma pairStep_frame:
  assumes "list_all2 coordsAdjusted p (fst st)"
  shows "list_all2 coordsAdjusted p (fst (pairStep e ij st))"
proof -
  obtain i j where ij: "ij = (i, j)" by (cases ij)
  obtain upd ch stg where st: "st = (upd, ch, stg)" by (cases st)
  let ?A = "upd ! i" and ?B = "upd ! j"
  show ?thesis
  proof (cases "placed ?A \<and> placed ?B \<and> 0 < fst (overlapAmount e ?A ?B) \<and>
                0 < snd (overlapAmount e ?A ?B)")
    case False
    then have "pairStep e (i, j) (upd, ch, stg) = (upd, ch, stg)"
      by (rule pairStep_unchanged)
    with assms show ?thesis by (simp add: ij st)
  next
    case True
    obtain ox oy where ov: "overlapAmount e ?A ?B = (ox, oy)"
      by (cases "overlapAmount e ?A ?B")
    let ?nb = "fst (adjustOverlap e ?A ?B ox oy stg)"
    from True ov have step: "fst (pairStep e (i, j) (upd, ch, stg)) = upd[j := ?nb]"
      using pairStep_overlapping[of ?A ?B e ox oy upd i j ch stg] by simp
    show ?thesis
    proof (cases "j < length upd")
      case False
      then have "upd[j := ?nb] = upd" by (intro list_update_beyond) simp
      with assms step show ?thesis by (simp add: ij st)
    next
      case j: True
      from assms have pj: "coordsAdjusted (p ! j) ?B"
        using j by (auto simp: st list_all2_conv_all_nth)
      from True have "coordsAdjusted ?B ?nb"
        by (intro adjustOverlap_coordsAdjusted) simp
      with pj have "coordsAdjusted (p ! j) ?nb"
        by (rule coordsAdjusted_trans)
      with assms have "list_all2 coordsAdjusted (p[j := p ! j]) (upd[j := ?nb])"
        by (intro list_all2_update_cong) (simp_all add: st)
      with step show ?thesis by (simp add: ij st)
    qed
  qed
qed

lemma fold_pairStep_frame:
  "list_all2 coordsAdjusted p (fst st) \<Longrightarrow>
   list_all2 coordsAdjusted p (fst (fold (pairStep e) ps st))"
  by (induction ps arbitrary: st) (simp_all add: pairStep_frame)

lemma adjustedList_refl: "adjustedList ms ms"
  unfolding adjustedList_def
  by (intro exI[of _ ms]) (simp add: list_all2_refl coordsAdjusted_refl)

lemma adjustedList_reorder:
  assumes "adjustedList ms upd" "mset upd' = mset upd"
  shows "adjustedList ms upd'"
proof -
  from assms(1) obtain p where p: "mset p = mset ms" "list_all2 coordsAdjusted p upd"
    by (auto simp: adjustedList_def)
  from p(2) have "list_all2 (\<lambda>b a. coordsAdjusted a b) upd p"
    by (simp add: list_all2_conv_all_nth)
  from list_all2_reorder_left_invariance[OF this assms(2)]
  obtain p' where "list_all2 (\<lambda>b a. coordsAdjusted a b) upd' p'" "mset p' = mset p"
    by blast
  then have "list_all2 coordsAdjusted p' upd'" "mset p' = mset ms"
    using p(1) by (simp_all add: list_all2_conv_all_nth)
  then show ?thesis by (auto simp: adjustedList_def)
qed

lemma resolvePass_frame:
  assumes "adjustedList ms upd"
  shows "adjustedList ms (fst (resolvePass e upd stg))"
proof -
  have "adjustedList ms (sortMessages upd)"
    using assms by (rule adjustedList_reorder) (simp add: sortMessages_def)
  then obtain p where p: "mset p = mset ms" "list_all2 coordsAdjusted p (sortMessages upd)"
    by (auto simp: adjustedList_def)
  from p(2) have "list_all2 coordsAdjusted p
      (fst (fold (pairStep e) (indexPairs (length (sortMessages upd))) (sortMessages upd, False, stg)))"
    by (intro fold_pairStep_frame) simp
  with p(1) show ?thesis
    by (auto simp: adjustedList_def resolvePass_def Let_def)
qed

lemma resolveLoop_frame:
  "adjustedList ms upd \<Longrightarrow> adjustedList ms (fst (resolveLoop k e upd stg))"
proof (induction k arbitrary: upd stg)
  case 0
  then show ?case by simp
next
  case (Suc k)
  obtain upd' ch stg' where r: "resolvePass e upd stg = (upd', ch, stg')"
    by (cases "resolvePass e upd stg")
  from resolvePass_frame[OF Suc.prems, of e stg] r have "adjustedList ms upd'"
    by simp
  with Suc.IH[of upd' stg'] r show ?case by simp
qed

lemma coordsAdjusted_id: "coordsAdjusted a b \<Longrightarrow> msg_id b = msg_id a"
proof -
  assume "coordsAdjusted a b"
  then have "msg_id (b\<lparr>msg_x := msg_x a, msg_y := msg_y a\<rparr>) = msg_id a"
    by (simp only: coordsAdjusted_def)
  then show ?thesis by simp
qed

lemma adjustedList_ids:
  assumes "adjustedList ms out"
  shows "length out = length ms \<and> mset (map msg_id out) = mset (map msg_id ms)"
proof -
  from assms obtain p where p: "mset p = mset ms" "list_all2 coordsAdjusted p out"
    by (auto simp: adjustedList_def)
  from p(2) have "map msg_id out = map msg_id p"
    by (induction rule: list_all2_induct) (simp_all add: coordsAdjusted_id)
  moreover have "length p = length ms"
    using p(1) by (rule mset_eq_length)
  moreover have "mset (map msg_id p) = mset (map msg_id ms)"
    using p(1) by (metis mset_map)
  ultimately show ?thesis
    using p(2) by (auto dest: list_all2_lengthD)
qed

lemma adjustedList_unplaced:
  assumes "adjustedList ms out" "m \<in> set ms" "\<not> placed m"
  shows "m \<in> set out"
proof -
  from assms(1) obtain p where p: "mset p = mset ms" "list_all2 coordsAdjusted p out"
    by (auto simp: adjustedList_def)
  from p(1) assms(2) have "m \<in> set p"
    by (metis set_mset_mset)
  then obtain k where k: "k < length p" "p ! k = m"
    by (auto simp: in_set_conv_nth)
  with p(2) have "coordsAdjusted m (out ! k)" "k < length out"
    by (auto simp: list_all2_conv_all_nth)
  with assms(3) show ?thesis
    by (auto simp: coordsAdjusted_def)
qed

text \<open>
  C9. \<open>resolveOverlaps\<close> only adjusts coordinates: the list it returns has the length of
  its input and the same message ids, and is a rearrangement of the input in which every
  message keeps all its fields other than x and y, and every message whose x or y is null
  is returned as it was.
\<close>

theorem resolveOverlaps_frame:
  "length (fst (resolveOverlaps e messages stg)) = length messages \<and>
   mset (map msg_id (fst (resolveOverlaps e messages stg))) = mset (map msg_id messages) \<and>
   adjustedList messages (fst (resolveOverlaps e messages stg))"
proof -
  obtain upd stg' where r: "resolveLoop MAX_RESOLVE_PASSES e messages stg = (upd, stg')"
    by (cases "resolveLoop MAX_RESOLVE_PASSES e messages stg")
  have "adjustedList messages upd"
    using resolveLoop_frame[OF adjustedList_refl, of messages MAX_RESOLVE_PASSES e stg] r by simp
  then obtain p where p: "mset p = mset messages" "list_all2 coordsAdjusted p upd"
    by (auto simp: adjustedList_def)
  have "list_all2 coordsAdjusted upd (map (normalizeMsg e) upd)"
    by (simp add: list_all2_conv_all_nth normalizeMsg_coordsAdjusted)
  with p(2) have "list_all2 coordsAdjusted p (map (normalizeMsg e) upd)"
    by (rule list_all2_trans[rotated 1]) (rule coordsAdjusted_trans)
  with p(1) have "adjustedList messages (fst (resolveOverlaps e messages stg))"
    by (auto simp: adjustedList_def resolveOverlaps_def r)
  with adjustedList_ids[OF this] show ?thesis by simp
qed

theorem resolveOverlaps_frame_witness:
  "length (fst (resolveOverlaps exEnv exMixed exStage)) = 3 \<and>
   mset (map msg_id (fst (resolveOverlaps exEnv exMixed exStage))) = {#''b'', ''u'', ''a''#} \<and>
   mkMsg ''u'' (Some ''a'') True None None \<in> set (fst (resolveOverlaps exEnv exMixed exStage))"
proof -
  note f = resolveOverlaps_frame[of exEnv exMixed exStage]
  have u: "mkMsg ''u'' (Some ''a'') True None None \<in> set exMixed"
    by (simp add: exMixed_def)
  have n: "\<not> placed (mkMsg ''u'' (Some ''a'') True None None)"
    by (simp add: placed_def mkMsg_def)
  have 1: "length (fst (resolveOverlaps exEnv exMixed exStage)) = 3"
    using f[THEN conjunct1] by (simp add: exMixed_def)
  have 2: "mset (map msg_id (fst (resolveOverlaps exEnv exMixed exStage))) = {#''b'', ''u'', ''a''#}"
    using f[THEN conjunct2, THEN conjunct1] by (simp add: exMixed_def mkMsg_def)
  have 3: "mkMsg ''u'' (Some ''a'') True None None \<in> set (fst (resolveOverlaps exEnv exMixed exStage))"
    using f[THEN conjunct2, THEN conjunct2] u n by (rule adjustedList_unplaced)
  from 1 2 3 show ?thesis by blast
qed

section \<open>Grid alignment\<close>

lemma gridMultiple_iff: "gridMultiple v \<longleftrightarrow> (\<exists>k::int. v = of_int k * GRID)"
proof
  assume "gridMultiple v"
  then show "\<exists>k::int. v = of_int k * GRID"
    unfolding gridMultiple_def by (intro exI[of _ "\<lfloor>v / GRID\<rfloor>"]) simp
next
  assume "\<exists>k::int. v = of_int k * GRID"
  then show "gridMultiple v"
    by (auto simp: gridMultiple_def GRID_def)
qed

lemma gridMultiple_snap: "gridMultiple (snap v)"
  by (auto simp: gridMultiple_iff snap_def)

lemma gridMultiple_clampY: "gridMultiple (clampYNoBottom v)"
  by (simp add: clampYNoBottom_def gridMultiple_snap)

lemma slotAt_grid: "gridMultiple (slot_x (slotAt c r s))"
  by (simp add: slotAt_def gridMultiple_snap)

lemma tryOrder_grid: "tryOrder occ sr sl r sx sy ps d = Some s \<Longrightarrow> gridMultiple (slot_x s)"
  by (auto simp: tryOrder_def Let_def slotAt_grid split: if_splits)

lemma belowAttempt_grid: "belowAttempt occ c r sx sy d = Some s \<Longrightarrow> gridMultiple (slot_x s)"
  by (auto simp: belowAttempt_def Let_def slotAt_grid split: if_splits)

lemma dropAttempt_grid: "dropAttempt occ c sx sy r = Some s \<Longrightarrow> gridMultiple (slot_x s)"
  by (auto simp: dropAttempt_def slotAt_grid split: if_splits)

lemma findSideSlotOnRow_grid:
  "findSideSlotOnRow occ pr w h ps = Some s \<Longrightarrow> gridMultiple (slot_x s)"
  unfolding findSideSlotOnRow_def Let_def
  by (blast dest: forFirst_SomeD tryOrder_grid)

lemma findSlotBelow_grid: "gridMultiple (slot_x (findSlotBelow occ pr w h))"
  unfolding findSlotBelow_def Let_def
  by (auto split: option.splits dest!: forFirst_SomeD belowAttempt_grid simp: gridMultiple_snap)

lemma findSlotBelowAtCenter_grid: "gridMultiple (slot_x (findSlotBelowAtCenter occ c pr w h))"
  unfolding findSlotBelowAtCenter_def Let_def
  by (auto split: option.splits dest!: forFirst_SomeD dropAttempt_grid simp: findSlotBelow_grid)

lemma findSlotBelowAtX_grid: "gridMultiple (slot_x (findSlotBelowAtX occ c pr w h))"
  unfolding findSlotBelowAtX_def Let_def
  by (auto split: option.splits dest!: forFirst_SomeD dropAttempt_grid simp: findSlotBelow_grid)

lemma choosePlacement_grid: "gridMultiple (slot_x (choosePlacement e cur pr w h ex ps))"
  unfolding choosePlacement_def Let_def
  by (auto split: option.splits simp: findSlotBelow_grid findSideSlotOnRow_grid)

lemma stackBelowAtX_grid: "gridMultiple (fst (stackBelowAtX e nxt t pr sz ex))"
  by (simp add: stackBelowAtX_def Let_def gridMultiple_snap)

lemma threadPos_grid: "gridMultiple (fst (threadPos e cur nxt m sz pid pr))"
  by (simp add: threadPos_def Let_def slotPos_def stackBelowAtX_grid choosePlacement_grid
      findSlotBelowAtX_grid)

lemma mainPos_grid: "gridMultiple (fst (mainPos e cur m sz pr c))"
  by (simp add: mainPos_def Let_def slotPos_def findSlotBelowAtCenter_grid)

section \<open>What a placement pass changes\<close>

lemma placeAt_cases:
  assumes "placeAt e cur i st = Some st'"
  shows "st' = st \<or>
         (\<not> placed (nextMsgs st ! i) \<and> changed st' \<and>
          (\<exists>u v. gridMultiple u \<and> gridMultiple v \<and>
             nextMsgs st' = (nextMsgs st)[i := (nextMsgs st ! i)\<lparr>msg_x := Some u, msg_y := Some v\<rparr>]))"
proof (cases "placed (nextMsgs st ! i)")
  case True
  with assms show ?thesis by (simp add: placeAt_def placed_def Let_def)
next
  case False
  have child: "\<exists>u v. gridMultiple u \<and> gridMultiple v \<and> changed (placeChild e cur i m sz pid pr rootId st) \<and>
      nextMsgs (placeChild e cur i m sz pid pr rootId st) = (nextMsgs st)[i := m\<lparr>msg_x := Some u, msg_y := Some v\<rparr>]"
    for m sz pid pr rootId
  proof -
    let ?pos = "if isThread m then threadPos e cur (nextMsgs st) m sz pid pr
                else mainPos e cur m sz pr (pinnedCenter e cur (rootCenters st) rootId)"
    have "gridMultiple (fst ?pos)" "gridMultiple (clampYNoBottom (snd ?pos))"
      by (simp_all add: gridMultiple_clampY threadPos_grid mainPos_grid)
    moreover have "changed (placeChild e cur i m sz pid pr rootId st)"
      by (simp add: placeChild_def Let_def)
    moreover have "nextMsgs (placeChild e cur i m sz pid pr rootId st) =
        (nextMsgs st)[i := m\<lparr>msg_x := Some (fst ?pos), msg_y := Some (clampYNoBottom (snd ?pos))\<rparr>]"
      by (simp add: placeChild_def Let_def)
    ultimately show ?thesis by blast
  qed
  have root: "\<exists>u v. gridMultiple u \<and> gridMultiple v \<and> changed (placeRoot e i m sz st) \<and>
      nextMsgs (placeRoot e i m sz st) = (nextMsgs st)[i := m\<lparr>msg_x := Some u, msg_y := Some v\<rparr>]"
    for m sz
  proof -
    let ?u = "snap (of_int (round ((stage_width (stageSizeRef e) - size_w sz) / 2)))"
    let ?v = "case filter (\<lambda>t. parentId t = None \<and> msg_x t \<noteq> None \<and> msg_y t \<noteq> None) (nextMsgs st) of
                 [] \<Rightarrow> snap EDGE_PADDING
               | r # rs \<Rightarrow>
                   (let lr = getRectFor e (lowestRoot e r rs)
                    in clampYNoBottom (px_y lr + px_h lr + GAP))"
    have "gridMultiple ?u" "gridMultiple ?v"
      by (simp_all add: gridMultiple_clampY gridMultiple_snap Let_def split: list.splits)
    moreover have "changed (placeRoot e i m sz st)"
      by (simp add: placeRoot_def Let_def)
    moreover have "nextMsgs (placeRoot e i m sz st) = (nextMsgs st)[i := m\<lparr>msg_x := Some ?u, msg_y := Some ?v\<rparr>]"
      by (simp add: placeRoot_def Let_def)
    ultimately show ?thesis by blast
  qed
  from assms have "st' = st \<or>
      (\<exists>sz pid pr rootId. st' = placeChild e cur i (nextMsgs st ! i) sz pid pr rootId st) \<or>
      (\<exists>sz. st' = placeRoot e i (nextMsgs st ! i) sz st)"
    unfolding placeAt_def Let_def
    by (auto split: option.splits if_splits)
  then show ?thesis
  proof (elim disjE exE)
    assume "st' = st"
    then show ?thesis by simp
  next
    fix sz pid pr rootId
    assume "st' = placeChild e cur i (nextMsgs st ! i) sz pid pr rootId st"
    with child[of "nextMsgs st ! i" sz pid pr rootId] False show ?thesis by blast
  next
    fix sz
    assume "st' = placeRoot e i (nextMsgs st ! i) sz st"
    with root[of "nextMsgs st ! i" sz] False show ?thesis by blast
  qed
qed

lemma placeAt_placedFrom:
  assumes "placedFrom cur (nextMsgs st)" "placeAt e cur' i st = Some st'"
  shows "placedFrom cur (nextMsgs st')"
proof -
  from placeAt_cases[OF assms(2)] show ?thesis
  proof
    assume "st' = st"
    with assms(1) show ?thesis by simp
  next
    assume "\<not> placed (nextMsgs st ! i) \<and> changed st' \<and>
          (\<exists>u v. gridMultiple u \<and> gridMultiple v \<and>
             nextMsgs st' = (nextMsgs st)[i := (nextMsgs st ! i)\<lparr>msg_x := Some u, msg_y := Some v\<rparr>])"
    then obtain u v where np: "\<not> placed (nextMsgs st ! i)"
      and g: "gridMultiple u" "gridMultiple v"
      and n: "nextMsgs st' = (nextMsgs st)[i := (nextMsgs st ! i)\<lparr>msg_x := Some u, msg_y := Some v\<rparr>]"
      by blast
    from assms(1) have len: "length (nextMsgs st) = length cur"
      and all: "\<And>k. k < length cur \<Longrightarrow> nextMsgs st ! k = cur ! k \<or>
         (\<not> placed (cur ! k) \<and> (\<exists>u v. gridMultiple u \<and> gridMultiple v \<and>
            nextMsgs st ! k = (cur ! k)\<lparr>msg_x := Some u, msg_y := Some v\<rparr>))"
      by (auto simp: placedFrom_def)
    show ?thesis
      unfolding placedFrom_def
    proof (intro conjI allI impI)
      show "length (nextMsgs st') = length cur" by (simp add: n len)
    next
      fix k assume k: "k < length cur"
      show "nextMsgs st' ! k = cur ! k \<or>
         (\<not> placed (cur ! k) \<and> (\<exists>u v. gridMultiple u \<and> gridMultiple v \<and>
            nextMsgs st' ! k = (cur ! k)\<lparr>msg_x := Some u, msg_y := Some v\<rparr>))"
      proof (cases "k = i")
        case False
        with all[OF k] show ?thesis by (simp add: n)
      next
        case True
        from all[OF k] np True have "nextMsgs st ! i = cur ! i"
          by (auto simp: placed_def)
        with np g k True show ?thesis
          by (auto simp: n len)
      qed
    qed
  qed
qed

lemma placeLoop_placedFrom:
  "placedFrom cur (nextMsgs st) \<Longrightarrow> placeLoop e cur' is st = Some st' \<Longrightarrow>
   placedFrom cur (nextMsgs st')"
proof (induction "is" arbitrary: st)
  case Nil
  then show ?case by simp
next
  case (Cons i "is")
  from Cons.prems(2) obtain st1 where s: "placeAt e cur' i st = Some st1"
    "placeLoop e cur' is st1 = Some st'"
    by (auto split: option.splits)
  from placeAt_placedFrom[OF Cons.prems(1) s(1)] have "placedFrom cur (nextMsgs st1)" .
  from Cons.IH[OF this s(2)] show ?case .
qed

lemma placementPass_placedFrom:
  assumes "map_option committed (placementPass e cur rf) = Some (Some nxt)"
  shows "placedFrom cur nxt"
proof -
  let ?st = "\<lparr>nextMsgs = cur, rootCenters = rootCentersRef rf,
              mainTailByRoot = mainTailByRootRef rf, localMainTail = mainTailByRootRef rf,
              changed = False, stageSize = pendingStage rf\<rparr>"
  from assms obtain st where st: "placeLoop e cur [0..<length cur] ?st = Some st"
    and n: "nxt = nextMsgs st"
    by (auto simp: placementPass_def split: option.splits if_splits)
  have "placedFrom cur (nextMsgs ?st)"
    by (simp add: placedFrom_def)
  from placeLoop_placedFrom[OF this st] n show ?thesis by simp
qed

lemma normalizeMsg_aligned: "placed (normalizeMsg e m) \<Longrightarrow> gridAligned (normalizeMsg e m)"
  by (auto simp: normalizeMsg_def gridAligned_def placed_def gridMultiple_snap gridMultiple_clampY
      split: option.splits)

text \<open>
  C8 (amended). After the overlap resolver, the x and y of every placed message are
  integer multiples of the grid size. After a placement pass that commits a list, every
  message that the pass placed (not placed before, placed after) has x and y that are
  integer multiples of the grid size and keeps its other fields; every other message is as
  it was before the pass, so a message that was already placed keeps its coordinates.
\<close>

theorem passes_grid_aligned:
  "(\<forall>m\<in>set (fst (resolveOverlaps e ms stg)). placed m \<longrightarrow> gridAligned m) \<and>
   (map_option committed (placementPass e cur rf) = Some (Some nxt) \<longrightarrow>
      length nxt = length cur \<and>
      (\<forall>k<length cur.
         nxt ! k = cur ! k \<or>
         (\<not> placed (cur ! k) \<and> placed (nxt ! k) \<and> gridAligned (nxt ! k) \<and>
          nxt ! k = (cur ! k)\<lparr>msg_x := msg_x (nxt ! k), msg_y := msg_y (nxt ! k)\<rparr>)))"
proof (intro conjI ballI impI allI)
  fix m assume "m \<in> set (fst (resolveOverlaps e ms stg))" "placed m"
  then show "gridAligned m"
    by (auto simp: resolveOverlaps_def normalizeMsg_aligned split: prod.splits)
next
  assume "map_option committed (placementPass e cur rf) = Some (Some nxt)"
  then have p: "placedFrom cur nxt" by (rule placementPass_placedFrom)
  then show "length nxt = length cur" by (simp add: placedFrom_def)
  fix k assume "k < length cur"
  with p have "nxt ! k = cur ! k \<or>
         (\<not> placed (cur ! k) \<and> (\<exists>u v. gridMultiple u \<and> gridMultiple v \<and>
            nxt ! k = (cur ! k)\<lparr>msg_x := Some u, msg_y := Some v\<rparr>))"
    by (simp add: placedFrom_def)
  then show "nxt ! k = cur ! k \<or>
         (\<not> placed (cur ! k) \<and> placed (nxt ! k) \<and> gridAligned (nxt ! k) \<and>
          nxt ! k = (cur ! k)\<lparr>msg_x := msg_x (nxt ! k), msg_y := msg_y (nxt ! k)\<rparr>)"
    by (auto simp: placed_def gridAligned_def)
qed

theorem passes_grid_aligned_witness:
  "map_option committed (placementPass exEnv exDragged exRefs) =
     Some (Some [mkMsg ''a'' None False (Some 85) (Some 93),
                 mkMsg ''b'' None False (Some 400) (Some 260)]) \<and>
   \<not> placed (exDragged ! 1) \<and>
   placed (mkMsg ''b'' None False (Some 400) (Some 260)) \<and>
   gridAligned (mkMsg ''b'' None False (Some 400) (Some 260))"
proof -
  let ?nxt = "[mkMsg ''a'' None False (Some 85) (Some 93),
               mkMsg ''b'' None False (Some 400) (Some 260)]"
  have run: "map_option committed (placementPass exEnv exDragged exRefs) = Some (Some ?nxt)"
    by code_simp
  have k: "1 < length exDragged" "?nxt ! 1 \<noteq> exDragged ! 1"
    by (simp_all add: exDragged_def mkMsg_def)
  from passes_grid_aligned[of exEnv "[]" exStage exDragged exRefs ?nxt] run k
  have "\<not> placed (exDragged ! 1) \<and> placed (?nxt ! 1) \<and> gridAligned (?nxt ! 1)"
    by blast
  with run show ?thesis by simp
qed

text \<open>
  C8 as stated fails for the placement pass: a message placed before the pass at
  (85, 93), as a drag in progress leaves it, is still there when the pass has completed
  and committed the position of another message.
\<close>

theorem placed_before_pass_counterexample:
  "map_option committed (placementPass exEnv exDragged exRefs) =
     Some (Some [mkMsg ''a'' None False (Some 85) (Some 93),
                 mkMsg ''b'' None False (Some 400) (Some 260)]) \<and>
   placed (mkMsg ''a'' None False (Some 85) (Some 93)) \<and>
   \<not> gridMultiple 85 \<and>
   \<not> gridAligned (mkMsg ''a'' None False (Some 85) (Some 93))"
  by code_simp

section \<open>Placing a root\<close>

lemma round_near: "\<bar>of_int (round q) - q\<bar> \<le> (1/2 :: rat)"
  using of_int_round_ge[of q] of_int_round_le[of q] by linarith

lemma snap_near: "\<bar>snap v - v\<bar> \<le> GRID / 2"
  using snap_ge[of v] snap_le[of v] by linarith

lemma lowestRoot_lowest:
  "lowestRoot e r rs \<in> set (r # rs) \<and>
   (\<forall>t\<in>set (r # rs). px_y (getRectFor e t) \<le> px_y (getRectFor e (lowestRoot e r rs)))"
  unfolding lowestRoot_def
proof (induction rs arbitrary: r)
  case Nil
  then show ?case by simp
next
  case (Cons a rs)
  let ?r' = "if px_y (getRectFor e a) < px_y (getRectFor e r) then r else a"
  from Cons[of ?r'] show ?case
    by (auto split: if_splits)
qed

lemma placeAt_root_eq:
  assumes "\<not> placed (nextMsgs st ! i)"
    and "bubbleSizes e (msg_id (nextMsgs st ! i)) = Some sz"
    and "parentId (nextMsgs st ! i) = None"
  shows "placeAt e cur i st = Some (placeRoot e i (nextMsgs st ! i) sz st)"
  using assms by (auto simp: placeAt_def placed_def Let_def)

text \<open>
  C4 (amended). A root \<open>R2\<close> placed while \<open>R1\<close> is the lowest placed root gets
  \<open>y = snap(max(EDGE_PADDING, R1.y + R1.h + GAP))\<close>, which is at least
  \<open>R1.y + R1.h + GAP - GRID/2\<close>. Every root is placed at
  \<open>x = snap(round((stageWidth - w) / 2))\<close>, so its horizontal centre \<open>x + w/2\<close> is
  within \<open>GRID/2 + 1/2\<close> of the middle of the stage: \<open>R1\<close> and \<open>R2\<close> are centred on
  the stage up to this rounding.
\<close>

theorem placeAt_root_stacking:
  assumes i: "i < length (nextMsgs st)"
    and un: "\<not> placed (nextMsgs st ! i)"
    and sz: "bubbleSizes e (msg_id (nextMsgs st ! i)) = Some sz"
    and root: "parentId (nextMsgs st ! i) = None"
    and roots: "filter (\<lambda>t. parentId t = None \<and> msg_x t \<noteq> None \<and> msg_y t \<noteq> None) (nextMsgs st) = r # rs"
    and low: "lowestRoot e r rs = R1"
  shows "\<exists>st' u v. placeAt e cur i st = Some st' \<and>
           nextMsgs st' ! i = (nextMsgs st ! i)\<lparr>msg_x := Some u, msg_y := Some v\<rparr> \<and>
           v = clampYNoBottom (px_y (getRectFor e R1) + px_h (getRectFor e R1) + GAP) \<and>
           v \<ge> px_y (getRectFor e R1) + px_h (getRectFor e R1) + GAP - GRID / 2 \<and>
           u = snap (of_int (round ((stage_width (stageSizeRef e) - size_w sz) / 2))) \<and>
           \<bar>(u + size_w sz / 2) - stage_width (stageSizeRef e) / 2\<bar> \<le> GRID / 2 + 1 / 2"
proof -
  let ?W = "stage_width (stageSizeRef e)"
  let ?k = "of_int (round ((?W - size_w sz) / 2)) :: rat"
  let ?u = "snap ?k"
  let ?v = "clampYNoBottom (px_y (getRectFor e R1) + px_h (getRectFor e R1) + GAP)"
  have st': "placeAt e cur i st = Some (placeRoot e i (nextMsgs st ! i) sz st)"
    using un sz root by (rule placeAt_root_eq)
  have nx: "nextMsgs (placeRoot e i (nextMsgs st ! i) sz st) ! i =
      (nextMsgs st ! i)\<lparr>msg_x := Some ?u, msg_y := Some ?v\<rparr>"
    using i roots low by (simp add: placeRoot_def Let_def)
  have v: "?v \<ge> px_y (getRectFor e R1) + px_h (getRectFor e R1) + GAP - GRID / 2"
    using clampYNoBottom_ge by simp
  have "\<bar>?u - ?k\<bar> \<le> GRID / 2" by (rule snap_near)
  moreover have "\<bar>?k - (?W - size_w sz) / 2\<bar> \<le> 1 / 2" by (rule round_near)
  ultimately have "\<bar>?u - (?W - size_w sz) / 2\<bar> \<le> GRID / 2 + 1 / 2"
    by linarith
  moreover have "(?u + size_w sz / 2) - ?W / 2 = ?u - (?W - size_w sz) / 2"
    by (simp add: field_simps)
  ultimately have c: "\<bar>(?u + size_w sz / 2) - ?W / 2\<bar> \<le> GRID / 2 + 1 / 2"
    by simp
  from st' nx v c show ?thesis by blast
qed

lemma placeAt_first_root:
  assumes i: "i < length (nextMsgs st)"
    and un: "\<not> placed (nextMsgs st ! i)"
    and sz: "bubbleSizes e (msg_id (nextMsgs st ! i)) = Some sz"
    and root: "parentId (nextMsgs st ! i) = None"
    and roots: "filter (\<lambda>t. parentId t = None \<and> msg_x t \<noteq> None \<and> msg_y t \<noteq> None) (nextMsgs st) = []"
  shows "\<exists>st'. placeAt e cur i st = Some st' \<and>
           nextMsgs st' ! i = (nextMsgs st ! i)
             \<lparr>msg_x := Some (snap (of_int (round ((stage_width (stageSizeRef e) - size_w sz) / 2)))),
              msg_y := Some EDGE_PADDING\<rparr>"
proof -
  have "snap EDGE_PADDING = EDGE_PADDING"
    by (simp add: snap_def EDGE_PADDING_def GRID_def)
  then have "nextMsgs (placeRoot e i (nextMsgs st ! i) sz st) ! i = (nextMsgs st ! i)
             \<lparr>msg_x := Some (snap (of_int (round ((stage_width (stageSizeRef e) - size_w sz) / 2)))),
              msg_y := Some EDGE_PADDING\<rparr>"
    using i roots by (simp add: placeRoot_def Let_def)
  with placeAt_root_eq[OF un sz root, of cur] show ?thesis by simp
qed

theorem placeAt_root_stacking_witness:
  "1 < length (nextMsgs exRootState) \<and>
   \<not> placed (nextMsgs exRootState ! 1) \<and>
   bubbleSizes exRootEnv (msg_id (nextMsgs exRootState ! 1)) = Some (mkSize 110 50) \<and>
   parentId (nextMsgs exRootState ! 1) = None \<and>
   filter (\<lambda>t. parentId t = None \<and> msg_x t \<noteq> None \<and> msg_y t \<noteq> None) (nextMsgs exRootState)
     = [mkMsg ''r1'' None False (Some 460) (Some 80)] \<and>
   lowestRoot exRootEnv (mkMsg ''r1'' None False (Some 460) (Some 80)) []
     = mkMsg ''r1'' None False (Some 460) (Some 80) \<and>
   map_option (\<lambda>s. nextMsgs s ! 1) (placeAt exRootEnv exRoots 1 exRootState)
     = Some (mkMsg ''r2'' None False (Some 440) (Some 240))"
proof -
  let ?R1 = "mkMsg ''r1'' None False (Some 460) (Some 80)"
  have h: "1 < length (nextMsgs exRootState)"
    "\<not> placed (nextMsgs exRootState ! 1)"
    "bubbleSizes exRootEnv (msg_id (nextMsgs exRootState ! 1)) = Some (mkSize 110 50)"
    "parentId (nextMsgs exRootState ! 1) = None"
    "filter (\<lambda>t. parentId t = None \<and> msg_x t \<noteq> None \<and> msg_y t \<noteq> None) (nextMsgs exRootState)
       = [?R1]"
    "lowestRoot exRootEnv ?R1 [] = ?R1"
    by code_simp+
  have v: "clampYNoBottom (px_y (getRectFor exRootEnv ?R1) + px_h (getRectFor exRootEnv ?R1) + GAP) = 240"
    by code_simp
  have u: "snap (of_int (round ((stage_width (stageSizeRef exRootEnv) - size_w (mkSize 110 50)) / 2))) = 440"
    by code_simp
  have m: "(nextMsgs exRootState ! 1)\<lparr>msg_x := Some 440, msg_y := Some 240\<rparr>
             = mkMsg ''r2'' None False (Some 440) (Some 240)"
    by code_simp
  from placeAt_root_stacking[OF h, of exRoots]
  have "map_option (\<lambda>s. nextMsgs s ! 1) (placeAt exRootEnv exRoots 1 exRootState)
     = Some (mkMsg ''r2'' None False (Some 440) (Some 240))"
    unfolding u v using m by auto
  with h show ?thesis by blast
qed

text \<open>
  C4 as stated fails on both counts: with a first root of size 100 x 105 and a second of
  width 110 on a stage of width 1000, the second root is placed at y 240, above
  80 + 105 + GAP = 249, and the centres are 510 and 495.
\<close>

theorem root_stacking_counterexample:
  "map_option committed (placementPass exRootEnv exRoots exRefs) =
     Some (Some [mkMsg ''r1'' None False (Some 460) (Some 80),
                 mkMsg ''r2'' None False (Some 440) (Some 240)]) \<and>
   bubbleSizes exRootEnv ''r1'' = Some (mkSize 100 105) \<and>
   bubbleSizes exRootEnv ''r2'' = Some (mkSize 110 50) \<and>
   \<not> (240 \<ge> 80 + 105 + GAP) \<and>
   (460::rat) + 100 / 2 \<noteq> 440 + 110 / 2"
  by code_simp

section \<open>Placing a main-chain child\<close>

lemma snap_fromCol: "snap (fromCol c) = fromCol c"
  by (simp add: snap_def fromCol_def GRID_def)

lemma findSlotBelowAtCenter_x:
  assumes "k < MAX_DROP"
    and "isFreeRect occ (max leftEdgeCol (toCol (C - w / 2)))
           (toRow (px_y pr + px_h pr) + gapCells + int k) (spanOf w) (spanOf h)"
  shows "slot_x (findSlotBelowAtCenter occ C pr w h) = fromCol (max leftEdgeCol (toCol (C - w / 2)))"
proof -
  let ?body = "\<lambda>i. dropAttempt occ (max leftEdgeCol (toCol (C - w / 2))) (spanOf w) (spanOf h)
                       (toRow (px_y pr + px_h pr) + gapCells + int i)"
  have "?body k \<noteq> None"
    using assms(2) by (simp add: dropAttempt_def)
  with assms(1) have "forFirst 0 MAX_DROP ?body \<noteq> None"
    by (auto simp: forFirst_None_iff)
  then obtain res where res: "forFirst 0 MAX_DROP ?body = Some res" by auto
  from forFirst_SomeD[OF this] obtain j where "?body j = Some res" by blast
  then have "slot_x res = fromCol (max leftEdgeCol (toCol (C - w / 2)))"
    by (auto simp: dropAttempt_def slotAt_def snap_fromCol split: if_splits)
  with res show ?thesis
    by (simp add: findSlotBelowAtCenter_def Let_def)
qed

lemma fromCol_floor_bounds:
  assumes "EDGE_PADDING \<le> q"
  shows "max leftEdgeCol (toCol q) = toCol q" "q - GRID < fromCol (toCol q)" "fromCol (toCol q) \<le> q"
    "fromCol (toCol q) = q \<longleftrightarrow> gridMultiple q"
proof -
  have "(4::rat) \<le> q / GRID"
    using assms by (simp add: EDGE_PADDING_def GRID_def)
  then have "4 \<le> \<lfloor>q / GRID\<rfloor>" by (simp add: le_floor_iff)
  then show "max leftEdgeCol (toCol q) = toCol q"
    by (simp add: leftEdgeCol_eq toCol_def)
  have "of_int \<lfloor>q / GRID\<rfloor> \<le> q / GRID" "q / GRID < of_int \<lfloor>q / GRID\<rfloor> + 1"
    by linarith+
  then show "q - GRID < fromCol (toCol q)" "fromCol (toCol q) \<le> q"
    by (simp_all add: fromCol_def toCol_def GRID_def field_simps)
  show "fromCol (toCol q) = q \<longleftrightarrow> gridMultiple q"
    by (simp add: gridMultiple_def fromCol_def toCol_def)
qed

lemma placeAt_child_eq:
  assumes "\<not> placed (nextMsgs st ! i)"
    and "bubbleSizes e (msg_id (nextMsgs st ! i)) = Some sz"
    and "parentId (nextMsgs st ! i) = Some pid"
    and "getPlacedRectById e cur (nextMsgs st) pid = Some pr"
    and "find (\<lambda>q. msg_id q = pid) cur = Some pm" "msg_x pm \<noteq> None"
    and "getRootIdOf cur pid = Some rootId"
  shows "placeAt e cur i st = Some (placeChild e cur i (nextMsgs st ! i) sz pid pr rootId st)"
  using assms by (auto simp: placeAt_def placed_def Let_def)

text \<open>
  C1 (amended). A main-chain (non-thread) child placed by the pass under a root with
  pinned centre \<open>C\<close>, for which one of the \<open>MAX_DROP\<close> rows scanned below its parent is
  free, gets \<open>x = GRID * max(leftEdgeCol, floor((C - w/2) / GRID))\<close>, where \<open>w\<close> is its
  measured width; the occupancy, and so the thread branches, decide the row only, and the
  pinned centre stays \<open>C\<close>. Hence, when \<open>C - w/2\<close> is at least \<open>EDGE_PADDING\<close>,
  \<open>C - GRID < x + w/2 \<le> C\<close>, and \<open>x + w/2 = C\<close> exactly when \<open>C - w/2\<close> is a multiple
  of the grid size.
\<close>

theorem placeAt_main_chain_center:
  assumes i: "i < length (nextMsgs st)"
    and un: "\<not> placed (nextMsgs st ! i)"
    and sz: "bubbleSizes e (msg_id (nextMsgs st ! i)) = Some sz"
    and par: "parentId (nextMsgs st ! i) = Some pid"
    and main: "\<not> isThread (nextMsgs st ! i)"
    and pr: "getPlacedRectById e cur (nextMsgs st) pid = Some pr"
    and pm: "find (\<lambda>q. msg_id q = pid) cur = Some pm" "msg_x pm \<noteq> None"
    and rootId: "getRootIdOf cur pid = Some rootId"
    and pin: "rootCenters st rootId = Some C"
    and k: "k < MAX_DROP"
    and free: "isFreeRect (buildOccupancy e cur [msg_id (nextMsgs st ! i)])
                 (max leftEdgeCol (toCol (C - size_w sz / 2)))
                 (toRow (px_y pr + px_h pr) + gapCells + int k)
                 (spanOf (size_w sz)) (spanOf (size_h sz))"
  shows "\<exists>st' u. placeAt e cur i st = Some st' \<and> rootCenters st' rootId = Some C \<and>
           msg_x (nextMsgs st' ! i) = Some u \<and>
           u = fromCol (max leftEdgeCol (toCol (C - size_w sz / 2))) \<and>
           (EDGE_PADDING \<le> C - size_w sz / 2 \<longrightarrow>
              C - GRID < u + size_w sz / 2 \<and> u + size_w sz / 2 \<le> C \<and>
              (u + size_w sz / 2 = C \<longleftrightarrow> gridMultiple (C - size_w sz / 2)))"
proof -
  let ?m = "nextMsgs st ! i"
  let ?st' = "placeChild e cur i ?m sz pid pr rootId st"
  let ?u = "fromCol (max leftEdgeCol (toCol (C - size_w sz / 2)))"
  have step: "placeAt e cur i st = Some ?st'"
    using un sz par pr pm rootId by (rule placeAt_child_eq)
  have c: "pinnedCenter e cur (rootCenters st) rootId = C"
    using pin by (simp add: pinnedCenter_def)
  have "fst (mainPos e cur ?m sz pr C) = ?u"
    using findSlotBelowAtCenter_x[OF k free] by (simp add: mainPos_def slotPos_def Let_def)
  then have x: "msg_x (nextMsgs ?st' ! i) = Some ?u"
    using i main c by (simp add: placeChild_def Let_def)
  have rc: "rootCenters ?st' rootId = Some C"
    using main pin by (simp add: placeChild_def Let_def)
  have "C - GRID < ?u + size_w sz / 2 \<and> ?u + size_w sz / 2 \<le> C \<and>
        (?u + size_w sz / 2 = C \<longleftrightarrow> gridMultiple (C - size_w sz / 2))"
    if "EDGE_PADDING \<le> C - size_w sz / 2"
    using fromCol_floor_bounds[OF that] by auto
  with step x rc show ?thesis by blast
qed

theorem placeAt_main_chain_center_witness:
  "1 < length (nextMsgs exMainState) \<and>
   \<not> placed (nextMsgs exMainState ! 1) \<and>
   bubbleSizes exMainEnv (msg_id (nextMsgs exMainState ! 1)) = Some (mkSize 110 50) \<and>
   parentId (nextMsgs exMainState ! 1) = Some ''r'' \<and>
   \<not> isThread (nextMsgs exMainState ! 1) \<and>
   getPlacedRectById exMainEnv exMain (nextMsgs exMainState) ''r'' = Some exParent \<and>
   find (\<lambda>q. msg_id q = ''r'') exMain = Some (mkMsg ''r'' None False (Some 400) (Some 80)) \<and>
   msg_x (mkMsg ''r'' None False (Some 400) (Some 80)) \<noteq> None \<and>
   getRootIdOf exMain ''r'' = Some ''r'' \<and>
   rootCenters exMainState ''r'' = Some 500 \<and>
   1 < MAX_DROP \<and>
   isFreeRect (buildOccupancy exMainEnv exMain [msg_id (nextMsgs exMainState ! 1)])
     (max leftEdgeCol (toCol (500 - size_w (mkSize 110 50) / 2)))
     (toRow (px_y exParent + px_h exParent) + gapCells + int 1)
     (spanOf (size_w (mkSize 110 50))) (spanOf (size_h (mkSize 110 50))) \<and>
   EDGE_PADDING \<le> 500 - size_w (mkSize 110 50) / 2 \<and>
   map_option (\<lambda>s. msg_x (nextMsgs s ! 1)) (placeAt exMainEnv exMain 1 exMainState) = Some (Some 440) \<and>
   500 - GRID < 440 + size_w (mkSize 110 50) / 2 \<and>
   440 + size_w (mkSize 110 50) / 2 \<le> 500"
proof -
  have h: "1 < length (nextMsgs exMainState)"
    "\<not> placed (nextMsgs exMainState ! 1)"
    "bubbleSizes exMainEnv (msg_id (nextMsgs exMainState ! 1)) = Some (mkSize 110 50)"
    "parentId (nextMsgs exMainState ! 1) = Some ''r''"
    "\<not> isThread (nextMsgs exMainState ! 1)"
    "getPlacedRectById exMainEnv exMain (nextMsgs exMainState) ''r'' = Some exParent"
    "find (\<lambda>q. msg_id q = ''r'') exMain = Some (mkMsg ''r'' None False (Some 400) (Some 80))"
    "msg_x (mkMsg ''r'' None False (Some 400) (Some 80)) \<noteq> None"
    "getRootIdOf exMain ''r'' = Some ''r''"
    "rootCenters exMainState ''r'' = Some 500"
    "1 < MAX_DROP"
    "isFreeRect (buildOccupancy exMainEnv exMain [msg_id (nextMsgs exMainState ! 1)])
       (max leftEdgeCol (toCol (500 - size_w (mkSize 110 50) / 2)))
       (toRow (px_y exParent + px_h exParent) + gapCells + int 1)
       (spanOf (size_w (mkSize 110 50))) (spanOf (size_h (mkSize 110 50)))"
    by code_simp+
  have q: "EDGE_PADDING \<le> 500 - size_w (mkSize 110 50) / 2"
    by code_simp
  have u: "fromCol (max leftEdgeCol (toCol (500 - size_w (mkSize 110 50) / 2))) = 440"
    by code_simp
  from placeAt_main_chain_center[OF h] q
  have "map_option (\<lambda>s. msg_x (nextMsgs s ! 1)) (placeAt exMainEnv exMain 1 exMainState) = Some (Some 440) \<and>
        500 - GRID < 440 + size_w (mkSize 110 50) / 2 \<and>
        440 + size_w (mkSize 110 50) / 2 \<le> 500"
    unfolding u by auto
  with h q show ?thesis by blast
qed

text \<open>
  C1 as stated fails: under a root of width 200 at x 400, pinned at centre 500, a
  main-chain child of width 110 is placed at x 440, and its centre is 495.
\<close>

theorem main_chain_center_counterexample:
  "rootCentersRef exMainRefs ''r'' = Some 500 \<and>
   bubbleSizes exMainEnv ''c'' = Some (mkSize 110 50) \<and>
   map_option committed (placementPass exMainEnv exMain exMainRefs) =
     Some (Some [mkMsg ''r'' None False (Some 400) (Some 80),
                 mkMsg ''c'' (Some ''r'') False (Some 440) (Some 260)]) \<and>
   (440::rat) + 110 / 2 \<noteq> 500"
  by code_simp

end
